theory Spec2Isabelle
  imports Complex_Main
begin

section \<open>Text\<close>

text \<open>
  The scripts work on Python \<open>str\<close> values. A text is modelled as a list of characters,
  one \<open>char\<close> per code point, for code points below 256 (ASCII and Latin-1). The functions
  below are Python's on that range: \<open>str.lower\<close>, \<open>str.upper\<close>, \<open>str.isspace\<close> and the
  word characters of \<open>re\<close> (\<open>\w\<close>: alphanumeric or underscore). The upper-case letters
  there are A to Z and the code points 192 to 222 but 215; the lower-case letter of each
  is 32 further. The characters whose other case lies beyond 255 are left as they are.
\<close>

definition code :: "char \<Rightarrow> nat" where
  "code c = of_char c"

definition upper_case :: "nat \<Rightarrow> bool" where
  "upper_case n = ((65 \<le> n \<and> n \<le> 90) \<or> (192 \<le> n \<and> n \<le> 222 \<and> n \<noteq> 215))"

definition lower_case :: "nat \<Rightarrow> bool" where
  "lower_case n = ((97 \<le> n \<and> n \<le> 122) \<or> (224 \<le> n \<and> n \<le> 254 \<and> n \<noteq> 247))"

definition lower_code :: "nat \<Rightarrow> nat" where
  "lower_code n = (if upper_case n then n + 32 else n)"

definition upper_code :: "nat \<Rightarrow> nat" where
  "upper_code n = (if lower_case n then n - 32 else n)"

definition py_lower :: "char \<Rightarrow> char" where
  "py_lower c = char_of (lower_code (code c))"

definition py_upper :: "char \<Rightarrow> char" where
  "py_upper c = char_of (upper_code (code c))"

definition space_code :: "nat \<Rightarrow> bool" where
  "space_code n = ((9 \<le> n \<and> n \<le> 13) \<or> (28 \<le> n \<and> n \<le> 32) \<or> n = 133 \<or> n = 160)"

definition is_space :: "char \<Rightarrow> bool" where
  "is_space c = space_code (code c)"

definition word_code :: "nat \<Rightarrow> bool" where
  "word_code n =
     ((48 \<le> n \<and> n \<le> 57) \<or> (65 \<le> n \<and> n \<le> 90) \<or> n = 95 \<or> (97 \<le> n \<and> n \<le> 122)
      \<or> n = 170 \<or> n = 178 \<or> n = 179 \<or> n = 181 \<or> n = 185 \<or> n = 186
      \<or> n = 188 \<or> n = 189 \<or> n = 190
      \<or> (192 \<le> n \<and> n \<noteq> 215 \<and> n \<noteq> 247))"

definition is_word :: "char \<Rightarrow> bool" where
  "is_word c = word_code (code c)"

definition newline :: char where
  "newline = CHR 0x0A"

definition dquote :: char where
  "dquote = CHR 0x22"

definition squote :: char where
  "squote = CHR 0x27"

text \<open>\<open>s.lower()\<close> and \<open>s.strip()\<close>.\<close>

definition lower :: "string \<Rightarrow> string" where
  "lower s = map py_lower s"

definition strip :: "string \<Rightarrow> string" where
  "strip s = rev (dropWhile is_space (rev (dropWhile is_space s)))"

text \<open>
  \<open>s.split(sep)\<close> for a one-character separator: the pieces between the separators, an
  empty text giving one empty piece. \<open>s.split()\<close> splits at runs of white space and
  returns no empty piece.
\<close>

fun split_when :: "(char \<Rightarrow> bool) \<Rightarrow> string \<Rightarrow> string list" where
  "split_when p [] = [[]]"
| "split_when p (c # cs) =
     (if p c then [] # split_when p cs
      else (case split_when p cs of [] \<Rightarrow> [[c]] | w # ws \<Rightarrow> (c # w) # ws))"

definition split_lines :: "string \<Rightarrow> string list" where
  "split_lines content = split_when (\<lambda>c. c = newline) content"

definition split_ws :: "string \<Rightarrow> string list" where
  "split_ws s = filter (\<lambda>w. w \<noteq> []) (split_when is_space s)"

text \<open>\<open>enumerate(xs, 1)\<close>: each element with its 1-based number.\<close>

definition enumerate1 :: "'a list \<Rightarrow> (nat \<times> 'a) list" where
  "enumerate1 xs = zip [1..<Suc (length xs)] xs"

text \<open>
  \<open>Path(p).suffix\<close> of \<open>pathlib\<close> on POSIX paths: the last component of the path that is
  neither empty nor \<open>.\<close>, from its last dot on, when that dot is neither its first nor
  its last character; the empty text otherwise.
\<close>

definition path_name :: "string \<Rightarrow> string" where
  "path_name p =
     (case rev (filter (\<lambda>w. w \<noteq> [] \<and> w \<noteq> ''.'') (split_when (\<lambda>c. c = CHR ''/'') p)) of
        [] \<Rightarrow> [] | w # _ \<Rightarrow> w)"

definition path_suffix :: "string \<Rightarrow> string" where
  "path_suffix p =
     (let name = path_name p;
          after = rev (takeWhile (\<lambda>c. c \<noteq> CHR ''.'') (rev name))
      in if after = [] \<or> length name \<le> Suc (length after) then [] else CHR ''.'' # after)"

section \<open>Regular expressions\<close>

text \<open>
  The patterns of the scripts use a small part of Python's \<open>re\<close>: literal characters,
  \<open>.\<close>, character classes, \<open>\s\<close>, \<open>\b\<close>, concatenation, alternation, \<open>x*\<close>, \<open>x+\<close>,
  \<open>x{n,}\<close> and \<open>x?\<close> on a single character \<open>x\<close>, and the negative lookahead \<open>(?!r)\<close>.
  \<open>atom\<close> is what matches one character; \<open>ranges\<close> of a class are pairs of its first and
  last character (a single character \<open>c\<close> is the range \<open>(c, c)\<close>).
\<close>

datatype atom = Chr char | Dot | Class "(char \<times> char) list" | Space

datatype regex =
    Eps
  | One atom
  | Many atom
  | AtLeast nat atom
  | WordB
  | Seq regex regex
  | Alt regex regex
  | NotAhead regex

definition in_ranges :: "(char \<times> char) list \<Rightarrow> nat \<Rightarrow> bool" where
  "in_ranges rs n = list_ex (\<lambda>(lo, hi). code lo \<le> n \<and> n \<le> code hi) rs"

text \<open>
  \<open>amatch ic a n\<close>: the atom \<open>a\<close> matches the character of code point \<open>n\<close>; \<open>ic\<close> is the
  flag \<open>re.IGNORECASE\<close>. With the flag a literal matches its lower-case and its upper-case
  form, and a class matches a character whose lower-case or upper-case form is in it.
\<close>

fun amatch :: "bool \<Rightarrow> atom \<Rightarrow> nat \<Rightarrow> bool" where
  "amatch ic (Chr p) =
     (if ic then (let l = lower_code (code p); u = upper_code (code p) in (\<lambda>n. n = l \<or> n = u))
      else (let k = code p in (\<lambda>n. n = k)))"
| "amatch ic Dot = (\<lambda>n. n \<noteq> 10)"
| "amatch ic (Class rs) =
     (if ic then (\<lambda>n. in_ranges rs (lower_code n) \<or> in_ranges rs (upper_code n))
      else in_ranges rs)"
| "amatch ic Space = space_code"

text \<open>
  The subject is searched as the list \<open>s\<close> of its code points. A set of positions of the
  subject (0 to \<open>length s\<close>) is a list of \<open>length s + 1\<close> truth values. \<open>advance m s bs\<close>
  are the positions one character after a position of \<open>bs\<close> whose character satisfies
  \<open>m\<close> (without position 0); \<open>many m carry s bs\<close> are the positions reached from \<open>bs\<close>
  over any number of such characters.
\<close>

fun advance :: "(nat \<Rightarrow> bool) \<Rightarrow> nat list \<Rightarrow> bool list \<Rightarrow> bool list" where
  "advance m [] bs = []"
| "advance m (c # cs) [] = []"
| "advance m (c # cs) (b # bs) = (if b then m c else False) # advance m cs bs"

fun many :: "(nat \<Rightarrow> bool) \<Rightarrow> bool \<Rightarrow> nat list \<Rightarrow> bool list \<Rightarrow> bool list" where
  "many m carry s [] = []"
| "many m carry [] (b # bs) = [b \<or> carry]"
| "many m carry (c # cs) (b # bs) =
     (if b \<or> carry then True # many m (m c) cs bs else False # many m False cs bs)"

text \<open>
  \<open>boundary prev s bs\<close> keeps the positions of \<open>bs\<close> at a word boundary: exactly one of
  the characters before and after the position is a word character. \<open>prev\<close> is the
  character before the first position, if any.
\<close>

definition word_before :: "nat option \<Rightarrow> bool" where
  "word_before prev = (case prev of None \<Rightarrow> False | Some c \<Rightarrow> word_code c)"

fun boundary :: "nat option \<Rightarrow> nat list \<Rightarrow> bool list \<Rightarrow> bool list" where
  "boundary prev s [] = []"
| "boundary prev [] (b # bs) = [if b then word_before prev else False]"
| "boundary prev (c # cs) (b # bs) =
     (if b then word_before prev \<noteq> word_code c else False) # boundary (Some c) cs bs"

text \<open>
  \<open>not_ahead m prev s bs\<close> keeps the positions of \<open>bs\<close> from which \<open>m\<close> finds no match;
  \<open>m\<close> is given the character before the position and the rest of the subject.
\<close>

fun not_ahead :: "(nat option \<Rightarrow> nat list \<Rightarrow> bool) \<Rightarrow> nat option \<Rightarrow> nat list \<Rightarrow> bool list \<Rightarrow> bool list" where
  "not_ahead m prev s [] = []"
| "not_ahead m prev [] (b # bs) = [if b then \<not> m prev [] else False]"
| "not_ahead m prev (c # cs) (b # bs) =
     (if b then \<not> m prev (c # cs) else False) # not_ahead m (Some c) cs bs"

primrec times :: "nat \<Rightarrow> ('a \<Rightarrow> 'a) \<Rightarrow> 'a \<Rightarrow> 'a" where
  "times 0 f x = x"
| "times (Suc n) f x = f (times n f x)"

definition from_start :: "nat list \<Rightarrow> bool list" where
  "from_start s = True # replicate (length s) False"

text \<open>
  \<open>step r ic prev s bs\<close>: the positions of \<open>s\<close> where a match of \<open>r\<close> that starts at a
  position of \<open>bs\<close> can end.
\<close>

primrec step :: "regex \<Rightarrow> bool \<Rightarrow> nat option \<Rightarrow> nat list \<Rightarrow> bool list \<Rightarrow> bool list" where
  "step Eps ic prev s bs = bs"
| "step (One a) ic prev s bs = False # advance (amatch ic a) s bs"
| "step (Many a) ic prev s bs = many (amatch ic a) False s bs"
| "step (AtLeast n a) ic prev s bs =
     many (amatch ic a) False s (times n (\<lambda>x. False # advance (amatch ic a) s x) bs)"
| "step WordB ic prev s bs = boundary prev s bs"
| "step (Seq r1 r2) ic prev s bs = step r2 ic prev s (step r1 ic prev s bs)"
| "step (Alt r1 r2) ic prev s bs = map2 (\<or>) (step r1 ic prev s bs) (step r2 ic prev s bs)"
| "step (NotAhead r) ic prev s bs =
     not_ahead (\<lambda>prev' rest. list_ex id (step r ic prev' rest (from_start rest))) prev s bs"

text \<open>
  \<open>re.search(pattern, s)\<close> as a truth value: some match of the pattern starts somewhere
  in \<open>s\<close>. Greedy and lazy matching differ in which match is found, not in whether there
  is one.
\<close>

definition re_search :: "bool \<Rightarrow> regex \<Rightarrow> string \<Rightarrow> bool" where
  "re_search ic r s = list_ex id (step r ic None (map code s) (replicate (Suc (length s)) True))"

text \<open>Writing patterns: a literal text, alternatives, a sequence.\<close>

fun lits :: "string \<Rightarrow> regex" where
  "lits [] = Eps"
| "lits [c] = One (Chr c)"
| "lits (c # cs) = Seq (One (Chr c)) (lits cs)"

fun alts :: "regex list \<Rightarrow> regex" where
  "alts [] = One (Class [])"
| "alts [r] = r"
| "alts (r # rs) = Alt r (alts rs)"

fun seqs :: "regex list \<Rightarrow> regex" where
  "seqs [] = Eps"
| "seqs [r] = r"
| "seqs (r # rs) = Seq r (seqs rs)"

definition quote :: regex where
  "quote = One (Class [(dquote, dquote), (squote, squote)])"

definition lit :: "char \<Rightarrow> regex" where
  "lit c = One (Chr c)"

section \<open>The security checker (\<open>security-checker.py\<close>)\<close>

subsection \<open>The rule catalog\<close>

text \<open>
  \<open>_load_security_patterns\<close>: the categories in the order of the dictionary, each with
  its rules in order. A rule is the dictionary \<open>{pattern, message, severity}\<close>; the pattern
  is kept in its parsed form. The patterns of the source, in order:
  \<^verbatim>\<open>(SELECT|INSERT|UPDATE|DELETE).*\+.*['\"]\<close>,
  \<^verbatim>\<open>query\s*\(\s*[\"'].*\+.*[\"']\s*\)\<close>,
  \<^verbatim>\<open>innerHTML\s*=\s*.*\+.*\<close>,
  \<^verbatim>\<open>document\.write\s*\(\s*.*\+.*\)\<close>,
  \<^verbatim>\<open>eval\s*\(\s*.*\+.*\)\<close>,
  \<^verbatim>\<open>(md5|sha1)\s*\(\<close>,
  \<^verbatim>\<open>Math\.random\(\)\<close>,
  \<^verbatim>\<open>(password|secret|key|token)\s*=\s*[\"'][a-zA-Z0-9+/=]{10,}[\"']\<close>,
  \<^verbatim>\<open>(api_key|apikey)\s*=\s*[\"'][a-zA-Z0-9_-]{20,}[\"']\<close>,
  \<^verbatim>\<open>(open|read|write).*\.\./\<close>,
  \<^verbatim>\<open>fs\.(readFile|writeFile).*\+.*\<close>,
  \<^verbatim>\<open>pickle\.loads?\s*\(\<close>,
  \<^verbatim>\<open>yaml\.load\s*\(\s*.*\)\<close>,
  \<^verbatim>\<open>(system|exec|popen|subprocess)\s*\(.*\+.*\)\<close>,
  \<^verbatim>\<open>os\.system\s*\(.*\+.*\)\<close>,
  \<^verbatim>\<open>http://(?!localhost|127\.0\.0\.1|0\.0\.0\.0)\<close>,
  \<^verbatim>\<open>ssl.*verify.*false|verify.*false.*ssl\<close>.
\<close>

record pattern_info =
  pattern :: regex
  message :: string
  severity :: string

definition sql_injection_rules :: "pattern_info list" where
  "sql_injection_rules =
     [\<lparr>pattern = seqs [alts [lits ''SELECT'', lits ''INSERT'', lits ''UPDATE'', lits ''DELETE''],
                          Many Dot, lit CHR ''+'', Many Dot, quote],
       message = ''Potential SQL injection: String concatenation in SQL query'',
       severity = ''high''\<rparr>,
      \<lparr>pattern = seqs [lits ''query'', Many Space, lit CHR ''('', Many Space, quote, Many Dot,
                          lit CHR ''+'', Many Dot, quote, Many Space, lit CHR '')''],
       message = ''Potential SQL injection: Dynamic query construction'',
       severity = ''high''\<rparr>]"

definition xss_rules :: "pattern_info list" where
  "xss_rules =
     [\<lparr>pattern = seqs [lits ''innerHTML'', Many Space, lit CHR ''='', Many Space, Many Dot,
                          lit CHR ''+'', Many Dot],
       message = ''Potential XSS: Dynamic HTML content without sanitization'',
       severity = ''high''\<rparr>,
      \<lparr>pattern = seqs [lits ''document.write'', Many Space, lit CHR ''('', Many Space, Many Dot,
                          lit CHR ''+'', Many Dot, lit CHR '')''],
       message = ''Potential XSS: document.write with dynamic content'',
       severity = ''medium''\<rparr>,
      \<lparr>pattern = seqs [lits ''eval'', Many Space, lit CHR ''('', Many Space, Many Dot,
                          lit CHR ''+'', Many Dot, lit CHR '')''],
       message = ''Potential code injection: eval() with dynamic content'',
       severity = ''high''\<rparr>]"

definition insecure_crypto_rules :: "pattern_info list" where
  "insecure_crypto_rules =
     [\<lparr>pattern = seqs [alts [lits ''md5'', lits ''sha1''], Many Space, lit CHR ''(''],
       message = ''Insecure cryptographic hash function (MD5/SHA1)'',
       severity = ''medium''\<rparr>,
      \<lparr>pattern = lits ''Math.random()'',
       message = ''Weak random number generator - use crypto.randomBytes() instead'',
       severity = ''low''\<rparr>]"

definition hardcoded_secrets_rules :: "pattern_info list" where
  "hardcoded_secrets_rules =
     [\<lparr>pattern = seqs [alts [lits ''password'', lits ''secret'', lits ''key'', lits ''token''],
                          Many Space, lit CHR ''='', Many Space, quote,
                          AtLeast 10 (Class [(CHR ''a'', CHR ''z''), (CHR ''A'', CHR ''Z''),
                                             (CHR ''0'', CHR ''9''), (CHR ''+'', CHR ''+''),
                                             (CHR ''/'', CHR ''/''), (CHR ''='', CHR ''='')]),
                          quote],
       message = ''Potential hardcoded secret or password'',
       severity = ''high''\<rparr>,
      \<lparr>pattern = seqs [alts [lits ''api_key'', lits ''apikey''],
                          Many Space, lit CHR ''='', Many Space, quote,
                          AtLeast 20 (Class [(CHR ''a'', CHR ''z''), (CHR ''A'', CHR ''Z''),
                                             (CHR ''0'', CHR ''9''), (CHR ''_'', CHR ''_''),
                                             (CHR ''-'', CHR ''-'')]),
                          quote],
       message = ''Potential hardcoded API key'',
       severity = ''high''\<rparr>]"

definition path_traversal_rules :: "pattern_info list" where
  "path_traversal_rules =
     [\<lparr>pattern = seqs [alts [lits ''open'', lits ''read'', lits ''write''], Many Dot, lits ''../''],
       message = ''Potential path traversal vulnerability'',
       severity = ''high''\<rparr>,
      \<lparr>pattern = seqs [lits ''fs.'', alts [lits ''readFile'', lits ''writeFile''], Many Dot,
                          lit CHR ''+'', Many Dot],
       message = ''Potential path injection in file operations'',
       severity = ''medium''\<rparr>]"

definition insecure_deserialization_rules :: "pattern_info list" where
  "insecure_deserialization_rules =
     [\<lparr>pattern = seqs [lits ''pickle.load'', Alt (lit CHR ''s'') Eps, Many Space, lit CHR ''(''],
       message = ''Insecure deserialization with pickle'',
       severity = ''high''\<rparr>,
      \<lparr>pattern = seqs [lits ''yaml.load'', Many Space, lit CHR ''('', Many Space, Many Dot,
                          lit CHR '')''],
       message = ''Potential unsafe YAML deserialization'',
       severity = ''medium''\<rparr>]"

definition command_injection_rules :: "pattern_info list" where
  "command_injection_rules =
     [\<lparr>pattern = seqs [alts [lits ''system'', lits ''exec'', lits ''popen'', lits ''subprocess''],
                          Many Space, lit CHR ''('', Many Dot, lit CHR ''+'', Many Dot, lit CHR '')''],
       message = ''Potential command injection: Dynamic command execution'',
       severity = ''high''\<rparr>,
      \<lparr>pattern = seqs [lits ''os.system'', Many Space, lit CHR ''('', Many Dot, lit CHR ''+'',
                          Many Dot, lit CHR '')''],
       message = ''Potential command injection in os.system()'',
       severity = ''high''\<rparr>]"

definition insecure_transport_rules :: "pattern_info list" where
  "insecure_transport_rules =
     [\<lparr>pattern = seqs [lits ''http://'',
                          NotAhead (alts [lits ''localhost'', lits ''127.0.0.1'', lits ''0.0.0.0''])],
       message = ''Insecure HTTP connection - use HTTPS'',
       severity = ''medium''\<rparr>,
      \<lparr>pattern = Alt (seqs [lits ''ssl'', Many Dot, lits ''verify'', Many Dot, lits ''false''])
                         (seqs [lits ''verify'', Many Dot, lits ''false'', Many Dot, lits ''ssl'']),
       message = ''SSL certificate verification disabled'',
       severity = ''high''\<rparr>]"

definition load_security_patterns :: "(string \<times> pattern_info list) list" where
  "load_security_patterns =
     [(''sql_injection'', sql_injection_rules),
      (''xss'', xss_rules),
      (''insecure_crypto'', insecure_crypto_rules),
      (''hardcoded_secrets'', hardcoded_secrets_rules),
      (''path_traversal'', path_traversal_rules),
      (''insecure_deserialization'', insecure_deserialization_rules),
      (''command_injection'', command_injection_rules),
      (''insecure_transport'', insecure_transport_rules)]"

subsection \<open>Scanning one file\<close>

text \<open>
  An entry of \<open>vulnerabilities\<close>: the dictionary with the keys \<open>file\<close>, \<open>line\<close>,
  \<open>category\<close>, \<open>severity\<close>, \<open>message\<close>, \<open>code_snippet\<close> and, for a rule of the catalog,
  \<open>pattern\<close> (absent in the findings of the language-specific checks).
\<close>

record vulnerability =
  v_file :: string
  v_line :: nat
  v_category :: string
  v_severity :: string
  v_message :: string
  v_code_snippet :: string
  v_pattern :: "regex option"

text \<open>
  What the file system holds at a path: nothing (\<open>os.path.exists\<close> is false), something
  that cannot be opened or read (\<open>open\<close> or \<open>read\<close> raises), or a file with its text. The
  text is the file as \<open>open(path, 'r', encoding='utf-8', errors='ignore').read()\<close>
  returns it: undecodable bytes are dropped, so decoding never fails.
\<close>

datatype entry = Unreadable | File string

type_synonym filesystem = "string \<Rightarrow> entry option"

definition path_exists :: "filesystem \<Rightarrow> string \<Rightarrow> bool" where
  "path_exists fs p = (fs p \<noteq> None)"

text \<open>
  The inner loop of \<open>_scan_file\<close>: one rule over the numbered lines, a finding for each
  line where \<open>re.search(pattern, line, re.IGNORECASE)\<close> finds a match.
\<close>

definition rule_findings :: "string \<Rightarrow> string \<Rightarrow> pattern_info \<Rightarrow> string list \<Rightarrow> vulnerability list" where
  "rule_findings file_path cat info lines =
     map (\<lambda>(line_num, line).
            \<lparr>v_file = file_path, v_line = line_num, v_category = cat, v_severity = severity info,
             v_message = message info, v_code_snippet = strip line, v_pattern = Some (pattern info)\<rparr>)
         (filter (\<lambda>(line_num, line). re_search True (pattern info) line) (enumerate1 lines))"

text \<open>The two outer loops: the categories in order, the rules of each in order.\<close>

definition category_findings :: "string \<Rightarrow> string list \<Rightarrow> string \<times> pattern_info list \<Rightarrow> vulnerability list" where
  "category_findings file_path lines entry =
     concat (map (\<lambda>info. rule_findings file_path (fst entry) info lines) (snd entry))"

definition catalog_findings :: "string \<Rightarrow> string list \<Rightarrow> vulnerability list" where
  "catalog_findings file_path lines =
     concat (map (category_findings file_path lines) load_security_patterns)"

text \<open>
  The language-specific checks search without \<open>re.IGNORECASE\<close>. Each goes through the
  lines once and, on each line, through its checks in order. Their patterns:
  \<^verbatim>\<open>\beval\s*\(\<close> and \<^verbatim>\<open>__proto__|constructor\.prototype\<close> (JavaScript),
  \<^verbatim>\<open>import\s+(pickle|marshal|shelve)\<close> (Python),
  \<^verbatim>\<open>XMLInputFactory|DocumentBuilderFactory\<close> (Java) and, for each \<open>func\<close> of
  \<open>dangerous_functions\<close>, \<^verbatim>\<open>\b{func}\s*\(\<close> (PHP).
\<close>

definition finding :: "string \<Rightarrow> nat \<Rightarrow> string \<Rightarrow> string \<Rightarrow> string \<Rightarrow> string \<Rightarrow> vulnerability" where
  "finding file_path line_num cat sev msg line =
     \<lparr>v_file = file_path, v_line = line_num, v_category = cat, v_severity = sev,
      v_message = msg, v_code_snippet = strip line, v_pattern = None\<rparr>"

definition js_eval_re :: regex where
  "js_eval_re = seqs [WordB, lits ''eval'', Many Space, lit CHR ''('']"

definition js_proto_re :: regex where
  "js_proto_re = Alt (lits ''__proto__'') (lits ''constructor.prototype'')"

definition check_javascript_security :: "string \<Rightarrow> string \<Rightarrow> vulnerability list" where
  "check_javascript_security file_path content =
     concat (map (\<lambda>(line_num, line).
                    (if re_search False js_eval_re line
                     then [finding file_path line_num ''code_injection'' ''high''
                             ''Use of eval() function - potential code injection risk'' line]
                     else [])
                    @ (if re_search False js_proto_re line
                       then [finding file_path line_num ''prototype_pollution'' ''medium''
                               ''Potential prototype pollution vulnerability'' line]
                       else []))
                 (enumerate1 (split_lines content)))"

definition py_import_re :: regex where
  "py_import_re =
     seqs [lits ''import'', AtLeast 1 Space, alts [lits ''pickle'', lits ''marshal'', lits ''shelve'']]"

definition check_python_security :: "string \<Rightarrow> string \<Rightarrow> vulnerability list" where
  "check_python_security file_path content =
     concat (map (\<lambda>(line_num, line).
                    if re_search False py_import_re line
                    then [finding file_path line_num ''insecure_deserialization'' ''high''
                            ''Potentially unsafe deserialization module imported'' line]
                    else [])
                 (enumerate1 (split_lines content)))"

definition java_xml_re :: regex where
  "java_xml_re = Alt (lits ''XMLInputFactory'') (lits ''DocumentBuilderFactory'')"

definition check_java_security :: "string \<Rightarrow> string \<Rightarrow> vulnerability list" where
  "check_java_security file_path content =
     concat (map (\<lambda>(line_num, line).
                    if re_search False java_xml_re line
                    then [finding file_path line_num ''xxe'' ''medium''
                            ''XML parser - ensure XXE protection is enabled'' line]
                    else [])
                 (enumerate1 (split_lines content)))"

definition dangerous_functions :: "string list" where
  "dangerous_functions = [''eval'', ''exec'', ''system'', ''shell_exec'', ''passthru'']"

definition php_call_re :: "string \<Rightarrow> regex" where
  "php_call_re func = seqs [WordB, lits func, Many Space, lit CHR ''('']"

definition php_message :: "string \<Rightarrow> string" where
  "php_message func =
     ''Dangerous function '' @ [squote] @ func @ ''()'' @ [squote]
       @ '' used - potential command injection''"

definition check_php_security :: "string \<Rightarrow> string \<Rightarrow> vulnerability list" where
  "check_php_security file_path content =
     concat (map (\<lambda>(line_num, line).
                    concat (map (\<lambda>func.
                                   if re_search False (php_call_re func) line
                                   then [finding file_path line_num ''command_injection'' ''high''
                                           (php_message func) line]
                                   else [])
                                dangerous_functions))
                 (enumerate1 (split_lines content)))"

text \<open>
  \<open>_check_language_specific\<close> appends to \<open>issues\<close>; the model returns what it appends.
\<close>

definition check_language_specific :: "string \<Rightarrow> string \<Rightarrow> vulnerability list" where
  "check_language_specific file_path content =
     (let ext = lower (path_suffix file_path)
      in if ext \<in> set [''.js'', ''.ts'', ''.jsx'', ''.tsx''] then check_javascript_security file_path content
         else if ext = ''.py'' then check_python_security file_path content
         else if ext = ''.java'' then check_java_security file_path content
         else if ext = ''.php'' then check_php_security file_path content
         else [])"

text \<open>
  \<open>_scan_file\<close>. Only \<open>open\<close> and \<open>read\<close> can raise inside the \<open>try\<close>, before any finding
  is appended: the handler prints the error and the function returns the empty list.
\<close>

definition scan_file :: "filesystem \<Rightarrow> string \<Rightarrow> vulnerability list" where
  "scan_file fs file_path =
     (case fs file_path of
        Some (File content) \<Rightarrow>
          catalog_findings file_path (split_lines content) @ check_language_specific file_path content
      | _ \<Rightarrow> [])"

subsection \<open>Scanning a batch\<close>

text \<open>\<open>self.results\<close> of \<open>SecurityChecker\<close>, as \<open>__init__\<close> sets it.\<close>

record results =
  total_files :: int
  files_with_issues :: int
  errors :: int
  warnings :: int
  vulnerabilities :: "vulnerability list"
  security_score :: int

definition initial_results :: results where
  "initial_results =
     \<lparr>total_files = 0, files_with_issues = 0, errors = 0, warnings = 0,
      vulnerabilities = [], security_score = 100\<rparr>"

text \<open>
  The first loop of \<open>check_files\<close>: a path that does not exist is skipped by \<open>continue\<close>
  before anything is counted.
\<close>

fun scan_files :: "filesystem \<Rightarrow> string list \<Rightarrow> results \<Rightarrow> results" where
  "scan_files fs [] r = r"
| "scan_files fs (file_path # rest) r =
     (if \<not> path_exists fs file_path then scan_files fs rest r
      else
        (let r1 = r\<lparr>total_files := total_files r + 1\<rparr>;
             file_issues = scan_file fs file_path
         in if file_issues \<noteq> []
            then scan_files fs rest
                   (r1\<lparr>files_with_issues := files_with_issues r1 + 1,
                       vulnerabilities := vulnerabilities r1 @ file_issues\<rparr>)
            else scan_files fs rest r1))"

text \<open>The second loop: every finding is an error (severity high) or a warning.\<close>

fun count_severities :: "vulnerability list \<Rightarrow> results \<Rightarrow> results" where
  "count_severities [] r = r"
| "count_severities (vuln # rest) r =
     (if v_severity vuln = ''high''
      then count_severities rest (r\<lparr>errors := errors r + 1\<rparr>)
      else count_severities rest (r\<lparr>warnings := warnings r + 1\<rparr>))"

definition calculate_security_score :: "results \<Rightarrow> results" where
  "calculate_security_score r =
     (let high_severity = errors r;
          medium_low_severity = warnings r;
          score = 100 - high_severity * 15 - medium_low_severity * 5
      in r\<lparr>security_score := max 0 score\<rparr>)"

text \<open>
  \<open>check_files\<close> on a fresh \<open>SecurityChecker\<close>. Writing \<open>security-results.json\<close> and
  printing are taken to succeed; what is written is the returned record.
\<close>

definition check_files :: "filesystem \<Rightarrow> string list \<Rightarrow> results" where
  "check_files fs files =
     (let r = scan_files fs files initial_results
      in calculate_security_score (count_severities (vulnerabilities r) r))"

text \<open>
  The score of a list of findings: the last two steps of \<open>check_files\<close> on results that
  hold these findings.
\<close>

definition score_of_findings :: "vulnerability list \<Rightarrow> int" where
  "score_of_findings vs =
     security_score (calculate_security_score
       (count_severities vs (initial_results\<lparr>vulnerabilities := vs\<rparr>)))"

subsection \<open>The command line\<close>

text \<open>
  What a run prints, what it writes to its results file, and its exit status. \<open>argv\<close> is
  \<open>sys.argv\<close>: the name of the script, then the arguments. A run that reaches the end of
  \<open>main\<close> exits with status 0.
\<close>

datatype 'r printed = Usage | No_files | Summary 'r

record 'r run =
  exit_status :: int
  prints :: "'r printed list"
  written :: "'r option"

definition files_of_argv :: "string list \<Rightarrow> string list" where
  "files_of_argv argv =
     (if length argv = 2
      then map strip (filter (\<lambda>f. strip f \<noteq> []) (split_ws (argv ! 1)))
      else drop 1 argv)"

definition security_main :: "filesystem \<Rightarrow> string list \<Rightarrow> results run" where
  "security_main fs argv =
     (if length argv < 2 then \<lparr>exit_status = 1, prints = [Usage], written = None\<rparr>
      else
        (let files = files_of_argv argv
         in if files = [] then \<lparr>exit_status = 0, prints = [No_files], written = None\<rparr>
            else
              (let r = check_files fs files
               in \<lparr>exit_status = (if errors r > 0 then 1 else 0),
                   prints = [Summary r], written = Some r\<rparr>)))"

section \<open>The lint checker (\<open>scripts/lint-checker.py\<close>)\<close>

text \<open>
  An entry of \<open>style_issues\<close>: the keys \<open>file\<close>, \<open>line\<close>, \<open>severity\<close>, \<open>message\<close>,
  \<open>category\<close> and, from some linters, \<open>column\<close> and \<open>rule\<close>.
\<close>

record style_issue =
  s_file :: string
  s_line :: int
  s_column :: "int option"
  s_severity :: string
  s_message :: string
  s_rule :: "string option"
  s_category :: string

text \<open>
  The linters are other programs, run as subprocesses. The environment gives, for a path,
  what each returns after the script has parsed it: \<open>None\<close> stands for the exceptions the
  script catches (the program is missing, it runs out of time, its output is not JSON).
  The checks that only read the file (\<open>_basic_javascript_check\<close>, \<open>_basic_python_check\<close>,
  \<open>_basic_java_check\<close>, \<open>_check_common_issues\<close>) are given by their result.
\<close>

record eslint_message =
  em_line :: int
  em_column :: int
  em_severity :: int
  em_message :: string
  em_rule :: string

record flake8_issue =
  f8_line :: int
  f8_column :: int
  f8_text :: string
  f8_code :: string

record rubocop_offense =
  ro_line :: int
  ro_column :: int
  ro_severity :: string
  ro_message :: string
  ro_cop_name :: string

record environment =
  env_exists :: "string \<Rightarrow> bool"
  eslint :: "string \<Rightarrow> eslint_message list option"
  tsc_errors :: "string \<Rightarrow> (int \<times> string) list option"
  flake8 :: "string \<Rightarrow> flake8_issue list option"
  gofmt_diff :: "string \<Rightarrow> bool option"
  rustfmt_failed :: "string \<Rightarrow> bool option"
  rubocop :: "string \<Rightarrow> rubocop_offense list option"
  basic_javascript_check :: "string \<Rightarrow> style_issue list"
  basic_python_check :: "string \<Rightarrow> style_issue list"
  basic_java_check :: "string \<Rightarrow> style_issue list"
  check_common_issues :: "string \<Rightarrow> style_issue list"

definition check_javascript :: "environment \<Rightarrow> string \<Rightarrow> style_issue list" where
  "check_javascript env file_path =
     (case eslint env file_path of
        None \<Rightarrow> basic_javascript_check env file_path
      | Some messages \<Rightarrow>
          map (\<lambda>m. \<lparr>s_file = file_path, s_line = em_line m, s_column = Some (em_column m),
                     s_severity = (if em_severity m = 2 then ''error'' else ''warning''),
                     s_message = em_message m, s_rule = Some (em_rule m),
                     s_category = ''eslint''\<rparr>) messages)"

definition check_typescript :: "environment \<Rightarrow> string \<Rightarrow> style_issue list" where
  "check_typescript env file_path =
     (case tsc_errors env file_path of
        None \<Rightarrow> basic_javascript_check env file_path
      | Some errs \<Rightarrow>
          map (\<lambda>(line_num, msg). \<lparr>s_file = file_path, s_line = line_num, s_column = None,
                     s_severity = ''error'', s_message = msg, s_rule = None,
                     s_category = ''typescript''\<rparr>) errs)"

definition check_python :: "environment \<Rightarrow> string \<Rightarrow> style_issue list" where
  "check_python env file_path =
     (case flake8 env file_path of
        None \<Rightarrow> basic_python_check env file_path
      | Some found \<Rightarrow>
          map (\<lambda>i. \<lparr>s_file = file_path, s_line = f8_line i, s_column = Some (f8_column i),
                     s_severity = ''warning'', s_message = f8_text i, s_rule = Some (f8_code i),
                     s_category = ''flake8''\<rparr>) found)"

definition check_go :: "environment \<Rightarrow> string \<Rightarrow> style_issue list" where
  "check_go env file_path =
     (if gofmt_diff env file_path = Some True
      then [\<lparr>s_file = file_path, s_line = 1, s_column = None, s_severity = ''warning'',
             s_message = ''File is not properly formatted. Run '' @ [squote] @ ''gofmt -w'' @ [squote] @ '' to fix.'',
             s_rule = None, s_category = ''gofmt''\<rparr>]
      else [])"

definition check_rust :: "environment \<Rightarrow> string \<Rightarrow> style_issue list" where
  "check_rust env file_path =
     (if rustfmt_failed env file_path = Some True
      then [\<lparr>s_file = file_path, s_line = 1, s_column = None, s_severity = ''warning'',
             s_message = ''File is not properly formatted. Run '' @ [squote] @ ''rustfmt'' @ [squote] @ '' to fix.'',
             s_rule = None, s_category = ''rustfmt''\<rparr>]
      else [])"

definition check_ruby :: "environment \<Rightarrow> string \<Rightarrow> style_issue list" where
  "check_ruby env file_path =
     (case rubocop env file_path of
        None \<Rightarrow> []
      | Some offenses \<Rightarrow>
          map (\<lambda>offense. \<lparr>s_file = file_path, s_line = ro_line offense,
                     s_column = Some (ro_column offense), s_severity = ro_severity offense,
                     s_message = ro_message offense, s_rule = Some (ro_cop_name offense),
                     s_category = ''rubocop''\<rparr>) offenses)"

text \<open>
  The body of the loop of \<open>check_files\<close> for one file: the linter of its extension, then
  the common checks. \<open>_check_cpp\<close>, \<open>_check_csharp\<close> and \<open>_check_php\<close> return the empty
  list.
\<close>

definition lint_file :: "environment \<Rightarrow> string \<Rightarrow> style_issue list" where
  "lint_file env file_path =
     (let ext = lower (path_suffix file_path)
      in (if ext \<in> set [''.js'', ''.jsx''] then check_javascript env file_path
          else if ext \<in> set [''.ts'', ''.tsx''] then check_typescript env file_path
          else if ext = ''.py'' then check_python env file_path
          else if ext = ''.java'' then basic_java_check env file_path
          else if ext = ''.go'' then check_go env file_path
          else if ext = ''.rs'' then check_rust env file_path
          else if ext \<in> set [''.c'', ''.cpp'', ''.h''] then []
          else if ext = ''.cs'' then []
          else if ext = ''.php'' then []
          else if ext = ''.rb'' then check_ruby env file_path
          else [])
         @ check_common_issues env file_path)"

record lint_results =
  lint_total_files :: int
  lint_files_with_issues :: int
  lint_errors :: int
  lint_warnings :: int
  style_issues :: "style_issue list"
  lint_score :: int

definition initial_lint_results :: lint_results where
  "initial_lint_results =
     \<lparr>lint_total_files = 0, lint_files_with_issues = 0, lint_errors = 0, lint_warnings = 0,
      style_issues = [], lint_score = 100\<rparr>"

fun lint_files :: "environment \<Rightarrow> string list \<Rightarrow> lint_results \<Rightarrow> lint_results" where
  "lint_files env [] r = r"
| "lint_files env (file_path # rest) r =
     (if \<not> env_exists env file_path then lint_files env rest r
      else
        (let r1 = r\<lparr>lint_total_files := lint_total_files r + 1\<rparr>;
             issues = lint_file env file_path
         in if issues \<noteq> []
            then lint_files env rest
                   (r1\<lparr>lint_files_with_issues := lint_files_with_issues r1 + 1,
                       style_issues := style_issues r1 @ issues\<rparr>)
            else lint_files env rest r1))"

fun count_lint_severities :: "style_issue list \<Rightarrow> lint_results \<Rightarrow> lint_results" where
  "count_lint_severities [] r = r"
| "count_lint_severities (issue # rest) r =
     (if s_severity issue = ''error''
      then count_lint_severities rest (r\<lparr>lint_errors := lint_errors r + 1\<rparr>)
      else count_lint_severities rest (r\<lparr>lint_warnings := lint_warnings r + 1\<rparr>))"

definition calculate_lint_score :: "lint_results \<Rightarrow> lint_results" where
  "calculate_lint_score r =
     (let score = 100 - lint_errors r * 10 - lint_warnings r * 2
      in r\<lparr>lint_score := max 0 score\<rparr>)"

definition lint_check_files :: "environment \<Rightarrow> string list \<Rightarrow> lint_results" where
  "lint_check_files env files =
     (let r = lint_files env files initial_lint_results
      in calculate_lint_score (count_lint_severities (style_issues r) r))"

definition score_of_issues :: "style_issue list \<Rightarrow> int" where
  "score_of_issues xs =
     lint_score (calculate_lint_score
       (count_lint_severities xs (initial_lint_results\<lparr>style_issues := xs\<rparr>)))"

text \<open>\<open>main\<close> of the lint checker: after \<open>check_files\<close> it ends, with no call of \<open>sys.exit\<close>.\<close>

definition lint_main :: "environment \<Rightarrow> string list \<Rightarrow> lint_results run" where
  "lint_main env argv =
     (if length argv < 2 then \<lparr>exit_status = 1, prints = [Usage], written = None\<rparr>
      else
        (let files = files_of_argv argv
         in if files = [] then \<lparr>exit_status = 0, prints = [No_files], written = None\<rparr>
            else
              (let r = lint_check_files env files
               in \<lparr>exit_status = 0, prints = [Summary r], written = Some r\<rparr>)))"

section \<open>The summary of the AI reviewer (\<open>scripts/ai-reviewer.py\<close>)\<close>

text \<open>
  The results that \<open>generate_summary\<close> reads are dictionaries decoded from the JSON text
  of a language model. A key may be absent (\<open>None\<close>), and the severity of an issue is
  whatever text the model wrote. Scores are rational numbers: every finite \<open>float\<close> is
  one, and \<open>_get_recommendation\<close> only compares its score with 60.
\<close>

record ai_issue =
  i_severity :: "string option"
  i_category :: "string option"

record analysis =
  a_issues :: "ai_issue list option"
  a_suggestions :: "string list option"
  a_overall_score :: "rat option"

record file_result =
  fr_file :: string
  fr_analysis :: "analysis option"

definition issues_of :: "analysis \<Rightarrow> ai_issue list" where
  "issues_of a = (case a_issues a of None \<Rightarrow> [] | Some xs \<Rightarrow> xs)"

definition suggestions_of :: "analysis \<Rightarrow> string list" where
  "suggestions_of a = (case a_suggestions a of None \<Rightarrow> [] | Some xs \<Rightarrow> xs)"

definition all_issues :: "file_result list \<Rightarrow> ai_issue list" where
  "all_issues rs =
     concat (map (\<lambda>r. case fr_analysis r of None \<Rightarrow> [] | Some a \<Rightarrow> issues_of a) rs)"

definition all_suggestions :: "file_result list \<Rightarrow> string list" where
  "all_suggestions rs =
     concat (map (\<lambda>r. case fr_analysis r of None \<Rightarrow> [] | Some a \<Rightarrow> suggestions_of a) rs)"

definition count_severity :: "string \<Rightarrow> ai_issue list \<Rightarrow> int" where
  "count_severity sev xs = int (length (filter (\<lambda>issue. i_severity issue = Some sev) xs))"

definition severity_counts :: "ai_issue list \<Rightarrow> (string \<rightharpoonup> int)" where
  "severity_counts xs =
     [''high'' \<mapsto> count_severity ''high'' xs,
      ''medium'' \<mapsto> count_severity ''medium'' xs,
      ''low'' \<mapsto> count_severity ''low'' xs]"

fun category_counts :: "ai_issue list \<Rightarrow> (string \<rightharpoonup> int) \<Rightarrow> (string \<rightharpoonup> int)" where
  "category_counts [] counts = counts"
| "category_counts (issue # rest) counts =
     (let cat = (case i_category issue of None \<Rightarrow> ''other'' | Some c \<Rightarrow> c)
      in category_counts rest
           (counts(cat \<mapsto> (case counts cat of None \<Rightarrow> 0 | Some n \<Rightarrow> n) + 1)))"

text \<open>\<open>d.get(key, 0)\<close> on a dictionary of counts.\<close>

definition get0 :: "(string \<rightharpoonup> int) \<Rightarrow> string \<Rightarrow> int" where
  "get0 d k = (case d k of None \<Rightarrow> 0 | Some v \<Rightarrow> v)"

datatype recommendation =
    Not_recommended
  | Merge_with_caution
  | Needs_improvement
  | Approved_with_suggestions
  | Approved

text \<open>
  \<open>_get_recommendation\<close>. The five texts it returns are the five labels: "Not
  Recommended for Merge", "Merge with Caution", "Needs Improvement", "Approved with
  Suggestions" and "Approved".
\<close>

definition get_recommendation :: "(string \<rightharpoonup> int) \<Rightarrow> rat \<Rightarrow> recommendation" where
  "get_recommendation counts avg_score =
     (if get0 counts ''high'' > 0 then Not_recommended
      else if get0 counts ''medium'' > 3 then Merge_with_caution
      else if avg_score < 60 then Needs_improvement
      else if get0 counts ''medium'' > 0 \<or> get0 counts ''low'' > 5 then Approved_with_suggestions
      else Approved)"

definition scores_of :: "file_result list \<Rightarrow> rat list" where
  "scores_of rs =
     concat (map (\<lambda>r. case fr_analysis r of
                         None \<Rightarrow> []
                       | Some a \<Rightarrow> [case a_overall_score a of None \<Rightarrow> 70 | Some x \<Rightarrow> x]) rs)"

definition average_score :: "file_result list \<Rightarrow> rat" where
  "average_score rs =
     (let scores = scores_of rs
      in if scores = [] then 70 else sum_list scores / of_nat (length scores))"

text \<open>
  The summary, without the copy of the results and without the rounding of the average
  to one decimal. The average is computed exactly here; Python divides in floating point.
\<close>

record summary =
  total_files_analyzed :: int
  ai_files_with_issues :: int
  total_issues :: int
  total_suggestions :: int
  severity_breakdown :: "string \<rightharpoonup> int"
  category_breakdown :: "string \<rightharpoonup> int"
  recommended :: recommendation

definition generate_summary :: "file_result list \<Rightarrow> summary" where
  "generate_summary rs =
     (let issues = all_issues rs;
          counts = severity_counts issues
      in \<lparr>total_files_analyzed = int (length rs),
          ai_files_with_issues =
            int (length (filter (\<lambda>r. case fr_analysis r of None \<Rightarrow> False
                                       | Some a \<Rightarrow> issues_of a \<noteq> []) rs)),
          total_issues = int (length issues),
          total_suggestions = int (length (all_suggestions rs)),
          severity_breakdown = counts,
          category_breakdown = category_counts issues Map.empty,
          recommended = get_recommendation counts (average_score rs)\<rparr>)"


section \<open>Vocabulary of the properties\<close>

text \<open>Clamping to an interval, and counting the elements of a list that satisfy a test.\<close>

definition clamp :: "int \<Rightarrow> int \<Rightarrow> int \<Rightarrow> int" where
  "clamp lo hi x = max lo (min hi x)"

definition count_where :: "('a \<Rightarrow> bool) \<Rightarrow> 'a list \<Rightarrow> int" where
  "count_where P xs = int (length (filter P xs))"

definition is_high :: "vulnerability \<Rightarrow> bool" where
  "is_high v = (v_severity v = ''high'')"

definition is_medium :: "vulnerability \<Rightarrow> bool" where
  "is_medium v = (v_severity v = ''medium'')"

definition is_low :: "vulnerability \<Rightarrow> bool" where
  "is_low v = (v_severity v = ''low'')"

definition tiered :: "vulnerability \<Rightarrow> bool" where
  "tiered v = (is_high v \<or> is_medium v \<or> is_low v)"

definition is_error :: "style_issue \<Rightarrow> bool" where
  "is_error x = (s_severity x = ''error'')"

definition is_warning :: "style_issue \<Rightarrow> bool" where
  "is_warning x = (s_severity x = ''warning'')"

text \<open>
  A decision list in the words of the specification: rules with a condition and a label,
  tried from the top, the first rule whose condition holds giving the label, and a label
  for the case that none holds.
\<close>

record tally =
  high :: int
  medium :: int
  low :: int
  score :: rat

definition first_match :: "(('a \<Rightarrow> bool) \<times> 'b) list \<Rightarrow> 'b \<Rightarrow> 'a \<Rightarrow> 'b" where
  "first_match rules otherwise x =
     (case find (\<lambda>rule. fst rule x) rules of None \<Rightarrow> otherwise | Some rule \<Rightarrow> snd rule)"

definition decision_list :: "((tally \<Rightarrow> bool) \<times> recommendation) list" where
  "decision_list =
     [(\<lambda>t. high t > 0, Not_recommended),
      (\<lambda>t. medium t > 3, Merge_with_caution),
      (\<lambda>t. score t < 60, Needs_improvement),
      (\<lambda>t. medium t > 0 \<or> low t > 5, Approved_with_suggestions)]"

definition tally_of :: "(string \<rightharpoonup> int) \<Rightarrow> rat \<Rightarrow> tally" where
  "tally_of counts avg_score =
     \<lparr>high = get0 counts ''high'', medium = get0 counts ''medium'', low = get0 counts ''low'',
      score = avg_score\<rparr>"

text \<open>
  The sum of the values of the severity breakdown of a summary, and the issues whose
  severity is one of the three that the breakdown counts.
\<close>

definition known_severity :: "ai_issue \<Rightarrow> bool" where
  "known_severity issue =
     (i_severity issue = Some ''high'' \<or> i_severity issue = Some ''medium''
      \<or> i_severity issue = Some ''low'')"

definition breakdown_sum :: "summary \<Rightarrow> int" where
  "breakdown_sum s =
     get0 (severity_breakdown s) ''high'' + get0 (severity_breakdown s) ''medium''
     + get0 (severity_breakdown s) ''low''"

text \<open>The patterns of the language-specific checks, all of them.\<close>

definition language_patterns :: "regex list" where
  "language_patterns =
     [js_eval_re, js_proto_re, py_import_re, java_xml_re] @ map php_call_re dangerous_functions"

text \<open>
  A line that no rule of the catalog matches, and a line that neither a rule of the
  catalog nor a language-specific pattern matches.
\<close>

definition no_rule_matches :: "string \<Rightarrow> bool" where
  "no_rule_matches l =
     list_all (\<lambda>entry. list_all (\<lambda>info. \<not> re_search True (pattern info) l) (snd entry))
       load_security_patterns"

definition unmatched :: "string \<Rightarrow> bool" where
  "unmatched l = (no_rule_matches l \<and> list_all (\<lambda>r. \<not> re_search False r l) language_patterns)"

text \<open>
  Two characters that differ at most in case, as code points; the rules of the catalog in
  one list, in the order in which \<open>_scan_file\<close> goes through them.
\<close>

definition same_letter :: "nat \<Rightarrow> nat \<Rightarrow> bool" where
  "same_letter n n' = (lower_code n = lower_code n')"

definition all_rules :: "pattern_info list" where
  "all_rules = concat (map snd load_security_patterns)"

text \<open>
  The place of a finding's rule in the catalog (the number of rules before it; the
  number of all rules for a finding that has no pattern), and the order of the findings
  of the catalog: by rule, and by line among the findings of one rule.
\<close>

definition rule_index :: "vulnerability \<Rightarrow> nat" where
  "rule_index v = length (takeWhile (\<lambda>q. Some q \<noteq> v_pattern v) (map pattern all_rules))"

definition rule_major :: "vulnerability \<Rightarrow> vulnerability \<Rightarrow> bool" where
  "rule_major a b =
     (rule_index a < rule_index b \<or> (rule_index a = rule_index b \<and> v_line a < v_line b))"

text \<open>
  The language-specific checks in the order of the source, each named by the message of
  its findings: the two checks of \<open>_check_javascript_security\<close>, the check of
  \<open>_check_python_security\<close>, the check of \<open>_check_java_security\<close>, and the checks of
  \<open>_check_php_security\<close>, one for each dangerous function in the order of its list. The
  place of a finding's check among them, and the order of the language-specific
  findings: by line, and by check among the findings of one line.
\<close>

definition language_messages :: "string list" where
  "language_messages =
     [''Use of eval() function - potential code injection risk'',
      ''Potential prototype pollution vulnerability'',
      ''Potentially unsafe deserialization module imported'',
      ''XML parser - ensure XXE protection is enabled'']
     @ map php_message dangerous_functions"

definition check_index :: "vulnerability \<Rightarrow> nat" where
  "check_index v = length (takeWhile (\<lambda>q. q \<noteq> v_message v) language_messages)"

definition line_major :: "vulnerability \<Rightarrow> vulnerability \<Rightarrow> bool" where
  "line_major a b =
     (v_line a < v_line b \<or> (v_line a = v_line b \<and> check_index a < check_index b))"

text \<open>
  A list in which equal elements stand together: no element occurs again after a
  different one has followed it.
\<close>

fun grouped :: "'a list \<Rightarrow> bool" where
  "grouped [] = True"
| "grouped (x # xs) = (x \<notin> set (dropWhile (\<lambda>y. y = x) xs) \<and> grouped xs)"


section \<open>Example runs\<close>

text \<open>
  An environment for the lint checker in which one file, \<open>a.js\<close>, exists and ESLint
  reports one message of severity 2 for it; the other linters are not installed and the
  checks that read the file find nothing.
\<close>

definition one_eslint_error :: environment where
  "one_eslint_error =
     \<lparr>env_exists = (\<lambda>p. p = ''a.js''),
      eslint = (\<lambda>p. Some [\<lparr>em_line = 3, em_column = 1, em_severity = 2,
                                em_message = ''x is not defined'', em_rule = ''no-undef''\<rparr>]),
      tsc_errors = (\<lambda>p. None),
      flake8 = (\<lambda>p. None),
      gofmt_diff = (\<lambda>p. None),
      rustfmt_failed = (\<lambda>p. None),
      rubocop = (\<lambda>p. None),
      basic_javascript_check = (\<lambda>p. []),
      basic_python_check = (\<lambda>p. []),
      basic_java_check = (\<lambda>p. []),
      check_common_issues = (\<lambda>p. [])\<rparr>"

text \<open>
  An environment for the lint checker in which one file, \<open>a.rb\<close>, exists and RuboCop
  reports one offense for it, of RuboCop's severity \<open>convention\<close>; the checks that read
  the file find nothing.
\<close>

definition one_rubocop_convention :: environment where
  "one_rubocop_convention =
     \<lparr>env_exists = (\<lambda>p. p = ''a.rb''),
      eslint = (\<lambda>p. None),
      tsc_errors = (\<lambda>p. None),
      flake8 = (\<lambda>p. None),
      gofmt_diff = (\<lambda>p. None),
      rustfmt_failed = (\<lambda>p. None),
      rubocop = (\<lambda>p. Some [\<lparr>ro_line = 1, ro_column = 1, ro_severity = ''convention'',
                                 ro_message = ''Missing frozen string literal comment.'',
                                 ro_cop_name = ''Style/FrozenStringLiteralComment''\<rparr>]),
      basic_javascript_check = (\<lambda>p. []),
      basic_python_check = (\<lambda>p. []),
      basic_java_check = (\<lambda>p. []),
      check_common_issues = (\<lambda>p. [])\<rparr>"

text \<open>
  A result of the AI reviewer whose analysis holds one issue, of a severity that is none
  of high, medium and low.
\<close>

definition critical_result :: file_result where
  "critical_result =
     \<lparr>fr_file = ''app.py'',
      fr_analysis =
        Some \<lparr>a_issues = Some [\<lparr>i_severity = Some ''critical'', i_category = Some ''security''\<rparr>],
              a_suggestions = Some [], a_overall_score = Some 40\<rparr>\<rparr>"

text \<open>A file system with one entry that cannot be read and one file without findings.\<close>

definition locked_and_clean :: filesystem where
  "locked_and_clean =
     (\<lambda>p. if p = ''locked.py'' then Some Unreadable
          else if p = ''clean.txt'' then Some (File ''ok'')
          else None)"

text \<open>
  The line of Scenario A, \<^verbatim>\<open>query("SELECT * FROM users WHERE id=" + userId)\<close>, and a file
  system whose only file, \<open>app.js\<close>, consists of it.
\<close>

definition sql_line :: string where
  "sql_line =
     ''query('' @ [dquote] @ ''SELECT * FROM users WHERE id='' @ [dquote] @ '' + userId)''"

definition sql_fs :: filesystem where
  "sql_fs = (\<lambda>p. if p = ''app.js'' then Some (File sql_line) else None)"

text \<open>The rule of the catalog for MD5 and SHA1.\<close>

definition md5_rule :: pattern_info where
  "md5_rule = insecure_crypto_rules ! 0"

text \<open>
  A file system whose only file, \<open>a.js\<close>, has two lines, each \<^verbatim>\<open>eval(__proto__)\<close>; and
  two lines that the two rules of \<open>insecure_crypto\<close> match, the second rule the first
  line and the first rule the second line.
\<close>

definition eval_line :: string where
  "eval_line = ''eval(__proto__)''"

definition two_evals_text :: string where
  "two_evals_text = eval_line @ [newline] @ eval_line"

definition two_evals :: filesystem where
  "two_evals = (\<lambda>p. if p = ''a.js'' then Some (File two_evals_text) else None)"

definition crypto_lines :: "string list" where
  "crypto_lines = [''Math.random()'', ''md5(x)'']"

text \<open>
  A variant of the line of Scenario A with a quoted value,
  \<^verbatim>\<open>query("SELECT * FROM users WHERE id='" + userId + "'")\<close>, as the only line of \<open>app.js\<close>;
  and a file system whose only file is empty.
\<close>

definition quoted_line :: string where
  "quoted_line =
     ''query('' @ [dquote] @ ''SELECT * FROM users WHERE id='' @ [squote, dquote]
       @ '' + userId + '' @ [dquote, squote, dquote] @ '')''"

definition quoted_fs :: filesystem where
  "quoted_fs = (\<lambda>p. if p = ''app.js'' then Some (File quoted_line) else None)"

definition empty_file :: filesystem where
  "empty_file = (\<lambda>p. if p = ''empty.py'' then Some (File []) else None)"


section \<open>Counting and scores\<close>

lemma count_where_Nil: "count_where P [] = 0"
  by (simp add: count_where_def)

lemma count_where_Cons: "count_where P (x # xs) = (if P x then 1 else 0) + count_where P xs"
  by (simp add: count_where_def)

lemma count_where_append: "count_where P (xs @ ys) = count_where P xs + count_where P ys"
  by (simp add: count_where_def)

lemma count_where_nonneg: "0 \<le> count_where P xs"
  by (simp add: count_where_def)

lemma count_where_split: "count_where P xs + count_where (\<lambda>x. \<not> P x) xs = int (length xs)"
  by (induction xs) (simp_all add: count_where_Nil count_where_Cons)

lemma count_severities_errors:
  "errors (count_severities vs r) = errors r + count_where is_high vs"
  by (induction vs arbitrary: r) (simp_all add: count_where_Nil count_where_Cons is_high_def)

lemma count_severities_warnings:
  "warnings (count_severities vs r) = warnings r + count_where (\<lambda>v. \<not> is_high v) vs"
  by (induction vs arbitrary: r) (simp_all add: count_where_Nil count_where_Cons is_high_def)

lemma count_severities_frame:
  "vulnerabilities (count_severities vs r) = vulnerabilities r
   \<and> total_files (count_severities vs r) = total_files r
   \<and> files_with_issues (count_severities vs r) = files_with_issues r"
  by (induction vs arbitrary: r) simp_all

lemma score_of_findings_eq:
  "score_of_findings vs
     = max 0 (100 - count_where is_high vs * 15 - count_where (\<lambda>v. \<not> is_high v) vs * 5)"
  by (simp add: score_of_findings_def calculate_security_score_def initial_results_def
        count_severities_errors count_severities_warnings)

lemma count_lint_errors:
  "lint_errors (count_lint_severities xs r) = lint_errors r + count_where is_error xs"
  by (induction xs arbitrary: r) (simp_all add: count_where_Nil count_where_Cons is_error_def)

lemma count_lint_warnings:
  "lint_warnings (count_lint_severities xs r) = lint_warnings r + count_where (\<lambda>x. \<not> is_error x) xs"
  by (induction xs arbitrary: r) (simp_all add: count_where_Nil count_where_Cons is_error_def)

lemma count_lint_frame:
  "style_issues (count_lint_severities xs r) = style_issues r
   \<and> lint_total_files (count_lint_severities xs r) = lint_total_files r
   \<and> lint_files_with_issues (count_lint_severities xs r) = lint_files_with_issues r"
  by (induction xs arbitrary: r) simp_all

lemma score_of_issues_eq:
  "score_of_issues xs
     = max 0 (100 - count_where is_error xs * 10 - count_where (\<lambda>x. \<not> is_error x) xs * 2)"
  by (simp add: score_of_issues_def calculate_lint_score_def initial_lint_results_def
        count_lint_errors count_lint_warnings)

lemma scan_files_errors_warnings:
  "errors (scan_files fs files r) = errors r \<and> warnings (scan_files fs files r) = warnings r"
  by (induction files arbitrary: r) (simp_all add: Let_def)

lemma lint_files_errors_warnings:
  "lint_errors (lint_files env files r) = lint_errors r
   \<and> lint_warnings (lint_files env files r) = lint_warnings r"
  by (induction files arbitrary: r) (simp_all add: Let_def)

lemma clamp_penalty:
  assumes "0 \<le> a" and "0 \<le> b" and "0 \<le> p" and "0 \<le> q"
  shows "max 0 (100 - a * p - b * q) = clamp 0 100 (100 - p * a - q * b)"
proof -
  have "0 \<le> p * a" and "0 \<le> q * b"
    using assms by simp_all
  then show ?thesis
    by (simp add: clamp_def mult.commute)
qed

lemma count_where_insert: "count_where P (pre @ post) \<le> count_where P (pre @ x # post)"
  by (simp add: count_where_append count_where_Cons)

lemma penalty_mono:
  fixes a b a' b' p q :: int
  assumes "a \<le> a'" and "b \<le> b'" and "0 \<le> p" and "0 \<le> q"
  shows "max 0 (100 - a' * p - b' * q) \<le> max 0 (100 - a * p - b * q)"
proof -
  have "a * p \<le> a' * p" and "b * q \<le> b' * q"
    using assms by (simp_all add: mult_right_mono)
  then show ?thesis by linarith
qed

lemma penalty_bounds:
  fixes a b p q :: int
  assumes "0 \<le> a" and "0 \<le> b" and "0 \<le> p" and "0 \<le> q"
  shows "0 \<le> max 0 (100 - a * p - b * q) \<and> max 0 (100 - a * p - b * q) \<le> 100"
proof -
  have "0 \<le> a * p" and "0 \<le> b * q"
    using assms by simp_all
  then show ?thesis by linarith
qed


section \<open>The structure of a scan\<close>

lemma set_enumerate1:
  "(n, x) \<in> set (enumerate1 xs) \<longleftrightarrow> 1 \<le> n \<and> n \<le> length xs \<and> x = xs ! (n - 1)"
proof
  assume "(n, x) \<in> set (enumerate1 xs)"
  then obtain i where i: "i < length xs" and n: "n = [1..<Suc (length xs)] ! i" and x: "x = xs ! i"
    by (auto simp: enumerate1_def in_set_zip)
  from i n have "n = Suc i"
    by (simp add: nth_upt del: upt_Suc)
  with i x show "1 \<le> n \<and> n \<le> length xs \<and> x = xs ! (n - 1)"
    by simp
next
  assume a: "1 \<le> n \<and> n \<le> length xs \<and> x = xs ! (n - 1)"
  then have i: "n - 1 < length xs"
    by arith
  then have "[1..<Suc (length xs)] ! (n - 1) = Suc (n - 1)"
    by (simp add: nth_upt del: upt_Suc)
  with a have "[1..<Suc (length xs)] ! (n - 1) = n"
    by simp
  with a i show "(n, x) \<in> set (enumerate1 xs)"
    by (auto simp: enumerate1_def in_set_zip intro!: exI [of _ "n - 1"])
qed

lemma enumerate1_Nil: "enumerate1 [] = []"
  by (simp add: enumerate1_def)

text \<open>The findings of the first loop: those of each existing file, in the order of the batch.\<close>

lemma scan_files_vulnerabilities:
  "vulnerabilities (scan_files fs files r)
     = vulnerabilities r @ concat (map (scan_file fs) (filter (path_exists fs) files))"
  by (induction files arbitrary: r) (simp_all add: Let_def)

lemma scan_files_total:
  "total_files (scan_files fs files r) = total_files r + int (length (filter (path_exists fs) files))"
  by (induction files arbitrary: r) (simp_all add: Let_def)

lemma scan_files_with_issues:
  "files_with_issues (scan_files fs files r)
     = files_with_issues r
       + count_where (\<lambda>p. scan_file fs p \<noteq> []) (filter (path_exists fs) files)"
  by (induction files arbitrary: r) (simp_all add: Let_def count_where_Nil count_where_Cons)

lemma check_files_vulnerabilities:
  "vulnerabilities (check_files fs files)
     = concat (map (scan_file fs) (filter (path_exists fs) files))"
  by (simp add: check_files_def Let_def calculate_security_score_def count_severities_frame
        scan_files_vulnerabilities initial_results_def)

lemma check_files_total:
  "total_files (check_files fs files) = int (length (filter (path_exists fs) files))"
  by (simp add: check_files_def Let_def calculate_security_score_def count_severities_frame
        scan_files_total initial_results_def)

lemma check_files_errors:
  "errors (check_files fs files) = count_where is_high (vulnerabilities (check_files fs files))"
  by (simp add: check_files_def Let_def calculate_security_score_def count_severities_frame
        count_severities_errors scan_files_errors_warnings initial_results_def)

lemma check_files_warnings:
  "warnings (check_files fs files)
     = count_where (\<lambda>v. \<not> is_high v) (vulnerabilities (check_files fs files))"
  by (simp add: check_files_def Let_def calculate_security_score_def count_severities_frame
        count_severities_warnings scan_files_errors_warnings initial_results_def)

text \<open>Every finding has one of the three severities.\<close>

lemma catalog_severities:
  "list_all (\<lambda>entry. list_all (\<lambda>info. severity info \<in> set [''high'', ''medium'', ''low'']) (snd entry))
     load_security_patterns"
  by (simp add: load_security_patterns_def sql_injection_rules_def xss_rules_def
        insecure_crypto_rules_def hardcoded_secrets_rules_def path_traversal_rules_def
        insecure_deserialization_rules_def command_injection_rules_def
        insecure_transport_rules_def)

lemma rule_findings_severity:
  "v \<in> set (rule_findings file_path cat info lines) \<Longrightarrow> v_severity v = severity info"
  by (auto simp: rule_findings_def)

lemma catalog_findings_tiered:
  assumes "v \<in> set (catalog_findings file_path lines)"
  shows "tiered v"
proof -
  from assms obtain entry info where e: "entry \<in> set load_security_patterns"
    and i: "info \<in> set (snd entry)" and v: "v \<in> set (rule_findings file_path (fst entry) info lines)"
    by (auto simp: catalog_findings_def category_findings_def)
  from e i catalog_severities have "severity info \<in> set [''high'', ''medium'', ''low'']"
    by (auto simp: list_all_iff)
  with rule_findings_severity [OF v] show ?thesis
    by (auto simp: tiered_def is_high_def is_medium_def is_low_def)
qed

lemma language_findings_tiered:
  assumes "v \<in> set (check_language_specific file_path content)"
  shows "tiered v"
  using assms
  by (auto simp: check_language_specific_def Let_def check_javascript_security_def
        check_python_security_def check_java_security_def check_php_security_def finding_def
        tiered_def is_high_def is_medium_def is_low_def split: if_splits)

lemma scan_file_tiered:
  assumes "v \<in> set (scan_file fs file_path)"
  shows "tiered v"
  using assms catalog_findings_tiered language_findings_tiered
  by (auto simp: scan_file_def split: option.splits entry.splits)

lemma check_files_tiered:
  assumes "v \<in> set (vulnerabilities (check_files fs files))"
  shows "tiered v"
  using assms scan_file_tiered by (auto simp: check_files_vulnerabilities)

lemma tiers_exclusive:
  "(is_high v \<longrightarrow> \<not> is_medium v \<and> \<not> is_low v) \<and> (is_medium v \<longrightarrow> \<not> is_high v \<and> \<not> is_low v)
   \<and> (is_low v \<longrightarrow> \<not> is_high v \<and> \<not> is_medium v)"
  by (auto simp: is_high_def is_medium_def is_low_def)

lemma count_not_high:
  assumes "\<And>v. v \<in> set vs \<Longrightarrow> tiered v"
  shows "count_where (\<lambda>v. \<not> is_high v) vs = count_where is_medium vs + count_where is_low vs"
  using assms
proof (induction vs)
  case Nil
  show ?case by (simp add: count_where_Nil)
next
  case (Cons v vs)
  have "tiered v" by (rule Cons.prems) simp
  then consider "is_high v" | "is_medium v" | "is_low v"
    by (auto simp: tiered_def)
  moreover have "count_where (\<lambda>v. \<not> is_high v) vs = count_where is_medium vs + count_where is_low vs"
    by (rule Cons.IH) (simp add: Cons.prems)
  ultimately show ?case
    using tiers_exclusive [of v] by cases (simp_all add: count_where_Cons)
qed


section \<open>The score\<close>

lemma check_files_score:
  "security_score (check_files fs files) = score_of_findings (vulnerabilities (check_files fs files))"
  by (simp add: check_files_def Let_def score_of_findings_eq calculate_security_score_def
        count_severities_errors count_severities_warnings count_severities_frame
        scan_files_errors_warnings initial_results_def)

lemma lint_check_files_score:
  "lint_score (lint_check_files env files) = score_of_issues (style_issues (lint_check_files env files))"
  by (simp add: lint_check_files_def Let_def score_of_issues_eq calculate_lint_score_def
        count_lint_errors count_lint_warnings count_lint_frame
        lint_files_errors_warnings initial_lint_results_def)

lemma score_of_findings_clamp:
  "score_of_findings vs
     = clamp 0 100 (100 - 15 * count_where is_high vs - 5 * count_where (\<lambda>v. \<not> is_high v) vs)"
  by (simp add: score_of_findings_eq clamp_penalty count_where_nonneg)

lemma score_of_issues_clamp:
  "score_of_issues xs
     = clamp 0 100 (100 - 10 * count_where is_error xs - 2 * count_where (\<lambda>x. \<not> is_error x) xs)"
  by (simp add: score_of_issues_eq clamp_penalty count_where_nonneg)

text \<open>
  Claim C8. Adding one more finding, of any severity and at any place of the list, never
  increases the score, and the score always lies between 0 and 100; in the security
  checker and in the lint checker.
\<close>

theorem score_monotone_bounded:
  "score_of_findings (pre @ v # post) \<le> score_of_findings (pre @ post)
   \<and> 0 \<le> score_of_findings vs \<and> score_of_findings vs \<le> 100
   \<and> score_of_issues (pre' @ x # post') \<le> score_of_issues (pre' @ post')
   \<and> 0 \<le> score_of_issues xs \<and> score_of_issues xs \<le> 100"
proof -
  have "score_of_findings (pre @ v # post) \<le> score_of_findings (pre @ post)"
    unfolding score_of_findings_eq
    by (rule penalty_mono) (simp_all add: count_where_insert)
  moreover have "score_of_issues (pre' @ x # post') \<le> score_of_issues (pre' @ post')"
    unfolding score_of_issues_eq
    by (rule penalty_mono) (simp_all add: count_where_insert)
  moreover have "0 \<le> score_of_findings vs \<and> score_of_findings vs \<le> 100"
    unfolding score_of_findings_eq
    by (rule penalty_bounds) (simp_all add: count_where_nonneg)
  moreover have "0 \<le> score_of_issues xs \<and> score_of_issues xs \<le> 100"
    unfolding score_of_issues_eq
    by (rule penalty_bounds) (simp_all add: count_where_nonneg)
  ultimately show ?thesis by simp
qed

section \<open>The recommendation\<close>

text \<open>
  Claim C3. The recommendation is chosen by a decision list, tried from the top, the
  first rule that matches giving the label: a high-severity finding gives "not
  recommended"; else more than 3 medium-severity findings give "caution"; else a score
  below 60 gives "needs improvement"; else a medium-severity finding or more than 5
  low-severity findings give "approved with suggestions"; else "approved". A severity
  that the counts do not hold counts 0.
\<close>

theorem recommendation_is_first_match:
  "get_recommendation counts avg_score
     = first_match decision_list Approved (tally_of counts avg_score)"
  by (simp add: get_recommendation_def first_match_def decision_list_def tally_of_def)


section \<open>The severity breakdown\<close>

lemma count_known:
  "count_severity ''high'' xs + count_severity ''medium'' xs + count_severity ''low'' xs
     = count_where known_severity xs"
  by (induction xs)
     (auto simp: count_severity_def count_where_def known_severity_def)

lemma breakdown_sum_eq:
  "breakdown_sum (generate_summary rs) = count_where known_severity (all_issues rs)"
  by (simp add: breakdown_sum_def generate_summary_def Let_def severity_counts_def get0_def
        count_known)

lemma count_where_le_length: "count_where P xs \<le> int (length xs)"
  by (simp add: count_where_def)

lemma count_where_all: "count_where P xs = int (length xs) \<longleftrightarrow> list_all P xs"
proof (induction xs)
  case Nil
  show ?case by (simp add: count_where_def)
next
  case (Cons x xs)
  have "count_where P xs \<le> int (length xs)" by (rule count_where_le_length)
  with Cons show ?case
    by (auto simp: count_where_Cons)
qed

text \<open>
  Claim C7, as stated, fails in the summary of the AI reviewer: an issue whose severity
  is none of high, medium and low is counted in \<open>total_issues\<close> and in no value of the
  breakdown.
\<close>

theorem breakdown_counterexample:
  "breakdown_sum (generate_summary [critical_result]) = 0
   \<and> total_issues (generate_summary [critical_result]) = 1"
  by (simp add: breakdown_sum_def generate_summary_def Let_def severity_counts_def get0_def
        count_severity_def critical_result_def all_issues_def issues_of_def)

text \<open>
  Claim C7, amended. In the security checker errors plus warnings is the number of
  findings. In the summary of the AI reviewer high plus medium plus low is the number of
  issues whose severity is high, medium or low; it is at most \<open>total_issues\<close>, and equal
  to it exactly when every issue has one of these three severities.
\<close>

theorem breakdown_sums:
  "errors (check_files fs files) + warnings (check_files fs files)
     = int (length (vulnerabilities (check_files fs files)))
   \<and> breakdown_sum (generate_summary rs) = count_where known_severity (all_issues rs)
   \<and> total_issues (generate_summary rs) = int (length (all_issues rs))
   \<and> breakdown_sum (generate_summary rs) \<le> total_issues (generate_summary rs)
   \<and> (breakdown_sum (generate_summary rs) = total_issues (generate_summary rs)
        \<longleftrightarrow> list_all known_severity (all_issues rs))"
proof -
  have t: "total_issues (generate_summary rs) = int (length (all_issues rs))"
    by (simp add: generate_summary_def Let_def)
  have "errors (check_files fs files) + warnings (check_files fs files)
          = int (length (vulnerabilities (check_files fs files)))"
    by (simp only: check_files_errors check_files_warnings count_where_split)
  then show ?thesis
    by (simp add: breakdown_sum_eq t count_where_le_length count_where_all)
qed


section \<open>The command line\<close>

lemmas char_eval = char_of_def bit_Suc_0_iff

lemma blank_split:
  assumes "list_all is_space s"
  shows "list_all (\<lambda>w. w = []) (split_when is_space s)"
  using assms by (induction s) simp_all

lemma blank_split_ws:
  assumes "list_all is_space s"
  shows "split_ws s = []"
  using blank_split [OF assms] by (simp add: split_ws_def filter_empty_conv list_all_iff)

lemma blank_files:
  assumes "list_all is_space arg"
  shows "files_of_argv [prog, arg] = []"
  using blank_split_ws [OF assms] by (simp add: files_of_argv_def)

text \<open>
  Claim C5, as stated, fails when no file is supplied because no argument is given: the
  guard at the top of \<open>main\<close> prints the usage line and exits with status 1.
\<close>

theorem no_argument_counterexample:
  "exit_status (security_main Map.empty [''security-checker.py'']) = 1
   \<and> prints (security_main Map.empty [''security-checker.py'']) = [Usage]
   \<and> exit_status (lint_main one_eslint_error [''lint-checker.py'']) = 1"
  by (simp add: security_main_def lint_main_def)

text \<open>
  Claim C5, amended. When one argument is given and it holds no file name (it is empty
  or white space only), the program prints "No files to scan" (the lint checker: "No
  files to check"), scans nothing, writes no results file and exits with status 0. When
  no argument is given it prints the usage line and exits with status 1.
\<close>

theorem empty_file_list:
  assumes "list_all is_space arg"
  shows "security_main fs [prog, arg] = \<lparr>exit_status = 0, prints = [No_files], written = None\<rparr>
       \<and> lint_main env [prog, arg] = \<lparr>exit_status = 0, prints = [No_files], written = None\<rparr>
       \<and> security_main fs [prog] = \<lparr>exit_status = 1, prints = [Usage], written = None\<rparr>
       \<and> lint_main env [prog] = \<lparr>exit_status = 1, prints = [Usage], written = None\<rparr>"
  using blank_files [OF assms] by (simp add: security_main_def lint_main_def)

theorem empty_file_list_witness:
  "list_all is_space ''  ''
   \<and> security_main Map.empty [''security-checker.py'', ''  '']
       = \<lparr>exit_status = 0, prints = [No_files], written = None\<rparr>
   \<and> lint_main one_eslint_error [''lint-checker.py'', ''  '']
       = \<lparr>exit_status = 0, prints = [No_files], written = None\<rparr>"
proof -
  have h: "list_all is_space ''  ''"
    by (simp add: is_space_def space_code_def code_def)
  show ?thesis
    using h empty_file_list [OF h] by simp
qed

lemma count_where_pos: "0 < count_where P xs \<longleftrightarrow> list_ex P xs"
  by (induction xs) (auto simp: count_where_Nil count_where_Cons count_where_nonneg
        intro: add_pos_nonneg)

lemma a_js_files: "files_of_argv [prog, ''a.js''] = [''a.js'']"
  by (simp add: files_of_argv_def split_ws_def strip_def is_space_def space_code_def code_def)

lemma a_js_suffix: "lower (path_suffix ''a.js'') = ''.js''"
  by (simp add: lower_def path_suffix_def path_name_def py_lower_def lower_code_def upper_case_def code_def
        char_eval)

text \<open>
  Claim C1, as stated, fails for the lint checker: with a finding of severity error in
  its results it still exits with status 0.
\<close>

theorem lint_error_exit_counterexample:
  "exit_status (lint_main one_eslint_error [''lint-checker.py'', ''a.js'']) = 0
   \<and> map_option (\<lambda>r. (lint_errors r, map s_severity (style_issues r)))
        (written (lint_main one_eslint_error [''lint-checker.py'', ''a.js''])) = Some (1, [''error''])"
  by (simp add: lint_main_def a_js_files lint_check_files_def Let_def lint_file_def a_js_suffix
        check_javascript_def one_eslint_error_def initial_lint_results_def
        calculate_lint_score_def)

text \<open>
  Claim C1, amended. With at least one argument, the security checker exits with status
  1 when a finding of severity high exists among the findings of the existing files, and
  with status 0 otherwise; the lint checker exits with status 0 whatever it finds.
\<close>

theorem exit_status_by_checker:
  "exit_status (security_main fs (prog # arg # args))
     = (if list_ex is_high
             (concat (map (scan_file fs)
                (filter (path_exists fs) (files_of_argv (prog # arg # args)))))
        then 1 else 0)
   \<and> exit_status (lint_main env (prog # arg # args)) = 0"
proof -
  have "exit_status (lint_main env (prog # arg # args)) = 0"
    by (simp add: lint_main_def Let_def)
  moreover have "exit_status (security_main fs (prog # arg # args))
     = (if list_ex is_high
             (concat (map (scan_file fs)
                (filter (path_exists fs) (files_of_argv (prog # arg # args)))))
        then 1 else 0)"
  proof (cases "files_of_argv (prog # arg # args) = []")
    case True
    then show ?thesis by (simp add: security_main_def Let_def)
  next
    case False
    then show ?thesis
      by (simp add: security_main_def Let_def check_files_errors count_where_pos
            check_files_vulnerabilities)
  qed
  ultimately show ?thesis by simp
qed


section \<open>The tiers of the score\<close>

lemma not_error_split:
  "count_where (\<lambda>x. \<not> is_error x) xs
     = count_where is_warning xs + count_where (\<lambda>x. \<not> is_error x \<and> \<not> is_warning x) xs"
  by (induction xs) (auto simp: count_where_Nil count_where_Cons is_error_def is_warning_def)

lemma a_rb_suffix: "lower (path_suffix ''a.rb'') = ''.rb''"
  by (simp add: lower_def path_suffix_def path_name_def py_lower_def lower_code_def upper_case_def
        code_def char_eval)

lemma rubocop_run:
  "lint_check_files one_rubocop_convention [''a.rb'']
     = \<lparr>lint_total_files = 1, lint_files_with_issues = 1, lint_errors = 0, lint_warnings = 1,
        style_issues = [\<lparr>s_file = ''a.rb'', s_line = 1, s_column = Some 1,
                          s_severity = ''convention'',
                          s_message = ''Missing frozen string literal comment.'',
                          s_rule = Some ''Style/FrozenStringLiteralComment'',
                          s_category = ''rubocop''\<rparr>],
        lint_score = 98\<rparr>"
  by (simp add: lint_check_files_def Let_def lint_file_def a_rb_suffix check_ruby_def
        one_rubocop_convention_def initial_lint_results_def calculate_lint_score_def)

text \<open>
  Claim C2, as stated, fails for the lint checker when a finding is neither an error nor
  a warning. \<open>_check_ruby\<close> hands on the severity that RuboCop reports, and the loop of
  \<open>check_files\<close> counts every finding that is not an error among the warnings. With one
  offense of severity \<open>convention\<close> there is no error and no warning, the claimed score is
  100, and the score of the run is 98.
\<close>

theorem rubocop_severity_counterexample:
  "map s_severity (style_issues (lint_check_files one_rubocop_convention [''a.rb''])) = [''convention'']
   \<and> count_where is_error (style_issues (lint_check_files one_rubocop_convention [''a.rb''])) = 0
   \<and> count_where is_warning (style_issues (lint_check_files one_rubocop_convention [''a.rb''])) = 0
   \<and> lint_warnings (lint_check_files one_rubocop_convention [''a.rb'']) = 1
   \<and> lint_score (lint_check_files one_rubocop_convention [''a.rb'']) = 98
   \<and> clamp 0 100 (100
        - 10 * count_where is_error (style_issues (lint_check_files one_rubocop_convention [''a.rb'']))
        - 2 * count_where is_warning (style_issues (lint_check_files one_rubocop_convention [''a.rb'']))) = 100"
  by (simp add: rubocop_run count_where_Nil count_where_Cons is_error_def is_warning_def clamp_def)

text \<open>
  Claim C2, what the code does. For every list of findings the score is 100 minus a fixed
  penalty for each finding, clamped to the interval from 0 to 100. The security checker
  takes 15 for a finding of severity high and 5 for any other; the findings it produces
  itself all have severity high, medium or low, so in a run of it the score is the
  claimed one, 15 for each high and 5 for each medium or low finding. The lint checker
  takes 10 for an error, 2 for a warning, and 2 as well for a finding of any other
  severity; its score is the claimed one exactly when the last term does not change the
  clamped value, as when every finding is an error or a warning.
\<close>

theorem score_is_clamped_penalty:
  "score_of_findings vs
     = clamp 0 100 (100 - 15 * count_where is_high vs - 5 * count_where (\<lambda>v. \<not> is_high v) vs)
   \<and> security_score (check_files fs files)
     = clamp 0 100 (100 - 15 * count_where is_high (vulnerabilities (check_files fs files))
                        - 5 * (count_where is_medium (vulnerabilities (check_files fs files))
                               + count_where is_low (vulnerabilities (check_files fs files))))
   \<and> score_of_issues xs
     = clamp 0 100 (100 - 10 * count_where is_error xs - 2 * count_where is_warning xs
                        - 2 * count_where (\<lambda>x. \<not> is_error x \<and> \<not> is_warning x) xs)
   \<and> lint_score (lint_check_files env paths)
     = clamp 0 100 (100 - 10 * count_where is_error (style_issues (lint_check_files env paths))
                        - 2 * count_where is_warning (style_issues (lint_check_files env paths))
                        - 2 * count_where (\<lambda>x. \<not> is_error x \<and> \<not> is_warning x)
                                (style_issues (lint_check_files env paths)))"
proof -
  have "count_where (\<lambda>v. \<not> is_high v) (vulnerabilities (check_files fs files))
          = count_where is_medium (vulnerabilities (check_files fs files))
            + count_where is_low (vulnerabilities (check_files fs files))"
    by (rule count_not_high) (rule check_files_tiered)
  then have "security_score (check_files fs files)
     = clamp 0 100 (100 - 15 * count_where is_high (vulnerabilities (check_files fs files))
                        - 5 * (count_where is_medium (vulnerabilities (check_files fs files))
                               + count_where is_low (vulnerabilities (check_files fs files))))"
    by (simp only: check_files_score score_of_findings_clamp)
  moreover have lint: "score_of_issues ys
     = clamp 0 100 (100 - 10 * count_where is_error ys - 2 * count_where is_warning ys
                        - 2 * count_where (\<lambda>x. \<not> is_error x \<and> \<not> is_warning x) ys)" for ys
    by (simp add: score_of_issues_clamp not_error_split [of ys] algebra_simps)
  moreover have "lint_score (lint_check_files env paths)
     = clamp 0 100 (100 - 10 * count_where is_error (style_issues (lint_check_files env paths))
                        - 2 * count_where is_warning (style_issues (lint_check_files env paths))
                        - 2 * count_where (\<lambda>x. \<not> is_error x \<and> \<not> is_warning x)
                                (style_issues (lint_check_files env paths)))"
    by (simp only: lint_check_files_score lint)
  ultimately show ?thesis
    using score_of_findings_clamp [of vs] by simp
qed


section \<open>Files that are missing or cannot be read\<close>

lemma scan_files_skip:
  assumes "\<not> path_exists fs p"
  shows "scan_files fs (pre @ p # post) r = scan_files fs (pre @ post) r"
  using assms by (induction pre arbitrary: r) (simp_all add: Let_def)

lemma check_files_skip:
  assumes "\<not> path_exists fs p"
  shows "check_files fs (pre @ p # post) = check_files fs (pre @ post)"
  by (simp add: check_files_def scan_files_skip [OF assms])

lemma unreadable_scan:
  assumes "fs p = Some Unreadable"
  shows "scan_file fs p = []"
  using assms by (simp add: scan_file_def)

text \<open>
  Claim C6, as stated, fails for a missing file: it is not counted in \<open>total_files\<close>.
\<close>

theorem missing_file_counterexample:
  "total_files (check_files Map.empty [''gone.py'']) = 0
   \<and> vulnerabilities (check_files Map.empty [''gone.py'']) = []"
  by (simp add: check_files_total check_files_vulnerabilities path_exists_def)

text \<open>
  Claim C6, amended. A path that does not exist is skipped: the batch gives the results
  it gives without it, so the file is not counted in \<open>total_files\<close>. A file that exists
  and cannot be read gives no findings (the error is printed; the results have no field
  for it), is counted in \<open>total_files\<close>, and leaves the findings of the batch as they
  are without it: every existing file of the batch is scanned, in order.
\<close>

theorem read_failure_is_local:
  assumes "fs missing = None" and "fs locked = Some Unreadable"
  shows "check_files fs (pre @ missing # post) = check_files fs (pre @ post)
       \<and> scan_file fs locked = []
       \<and> total_files (check_files fs (pre @ locked # post))
           = total_files (check_files fs (pre @ post)) + 1
       \<and> vulnerabilities (check_files fs (pre @ locked # post))
           = vulnerabilities (check_files fs (pre @ post))
       \<and> vulnerabilities (check_files fs files)
           = concat (map (scan_file fs) (filter (path_exists fs) files))"
proof -
  have "\<not> path_exists fs missing"
    using assms(1) by (simp add: path_exists_def)
  then have "check_files fs (pre @ missing # post) = check_files fs (pre @ post)"
    by (rule check_files_skip)
  moreover have e: "path_exists fs locked" and s: "scan_file fs locked = []"
    using assms(2) by (simp_all add: path_exists_def scan_file_def)
  ultimately show ?thesis
    by (simp add: check_files_total check_files_vulnerabilities)
qed

theorem read_failure_is_local_witness:
  "locked_and_clean ''gone.py'' = None \<and> locked_and_clean ''locked.py'' = Some Unreadable
   \<and> check_files locked_and_clean ([''clean.txt''] @ ''gone.py'' # [''clean.txt''])
       = check_files locked_and_clean ([''clean.txt''] @ [''clean.txt''])
   \<and> scan_file locked_and_clean ''locked.py'' = []
   \<and> total_files (check_files locked_and_clean ([''clean.txt''] @ ''locked.py'' # [''clean.txt'']))
       = total_files (check_files locked_and_clean ([''clean.txt''] @ [''clean.txt''])) + 1"
proof -
  have m: "locked_and_clean ''gone.py'' = None"
    and l: "locked_and_clean ''locked.py'' = Some Unreadable"
    by (simp_all add: locked_and_clean_def)
  show ?thesis
    using m l read_failure_is_local [OF m l, of "[''clean.txt'']" "[''clean.txt'']"]
    by simp
qed


section \<open>Evaluating searches\<close>

lemma times_numeral: "times (numeral k) f x = f (times (pred_numeral k) f x)"
  by (simp add: numeral_eq_Suc)

lemmas code_eval =
  upper_case_def [of "numeral k" for k] lower_case_def [of "numeral k" for k]
  lower_code_def [of "numeral k" for k] upper_code_def [of "numeral k" for k]
  space_code_def [of "numeral k" for k] word_code_def [of "numeral k" for k]
  in_ranges_def [of _ "numeral k" for k]

lemmas re_eval =
  code_def code_eval is_space_def word_before_def from_start_def re_search_def quote_def
  lit_def dquote_def squote_def newline_def times_numeral

lemmas catalog_defs =
  load_security_patterns_def sql_injection_rules_def xss_rules_def insecure_crypto_rules_def
  hardcoded_secrets_rules_def path_traversal_rules_def insecure_deserialization_rules_def
  command_injection_rules_def insecure_transport_rules_def

lemma sql_line_sql_injection:
  "list_all (\<lambda>info. \<not> re_search True (pattern info) sql_line) sql_injection_rules"
  by (simp add: sql_injection_rules_def sql_line_def re_eval)

lemma sql_line_xss:
  "list_all (\<lambda>info. \<not> re_search True (pattern info) sql_line) xss_rules"
  by (simp add: xss_rules_def sql_line_def re_eval)

lemma sql_line_insecure_crypto:
  "list_all (\<lambda>info. \<not> re_search True (pattern info) sql_line) insecure_crypto_rules"
  by (simp add: insecure_crypto_rules_def sql_line_def re_eval)

lemma sql_line_hardcoded_secrets:
  "list_all (\<lambda>info. \<not> re_search True (pattern info) sql_line) hardcoded_secrets_rules"
  by (simp add: hardcoded_secrets_rules_def sql_line_def re_eval)

lemma sql_line_path_traversal:
  "list_all (\<lambda>info. \<not> re_search True (pattern info) sql_line) path_traversal_rules"
  by (simp add: path_traversal_rules_def sql_line_def re_eval)

lemma sql_line_insecure_deserialization:
  "list_all (\<lambda>info. \<not> re_search True (pattern info) sql_line) insecure_deserialization_rules"
  by (simp add: insecure_deserialization_rules_def sql_line_def re_eval)

lemma sql_line_command_injection:
  "list_all (\<lambda>info. \<not> re_search True (pattern info) sql_line) command_injection_rules"
  by (simp add: command_injection_rules_def sql_line_def re_eval)

lemma sql_line_insecure_transport:
  "list_all (\<lambda>info. \<not> re_search True (pattern info) sql_line) insecure_transport_rules"
  by (simp add: insecure_transport_rules_def sql_line_def re_eval)

lemma sql_line_language:
  "list_all (\<lambda>r. \<not> re_search False r sql_line) language_patterns"
  by (simp add: language_patterns_def js_eval_re_def js_proto_re_def py_import_re_def
        java_xml_re_def php_call_re_def dangerous_functions_def sql_line_def re_eval)


section \<open>Where findings come from\<close>

lemma rule_findings_sound:
  assumes "v \<in> set (rule_findings file_path cat info lines)"
  shows "1 \<le> v_line v \<and> v_line v \<le> length lines
         \<and> re_search True (pattern info) (lines ! (v_line v - 1))"
  using assms by (auto simp: rule_findings_def set_enumerate1)

lemma catalog_findings_sound:
  assumes "v \<in> set (catalog_findings file_path lines)"
  shows "1 \<le> v_line v \<and> v_line v \<le> length lines
         \<and> list_ex (\<lambda>entry. list_ex (\<lambda>info. re_search True (pattern info) (lines ! (v_line v - 1)))
                       (snd entry)) load_security_patterns"
proof -
  from assms obtain entry info where e: "entry \<in> set load_security_patterns"
    and i: "info \<in> set (snd entry)" and v: "v \<in> set (rule_findings file_path (fst entry) info lines)"
    by (auto simp: catalog_findings_def category_findings_def)
  from rule_findings_sound [OF v] e i show ?thesis
    by (auto simp: list_ex_iff)
qed

lemma javascript_findings_sound:
  assumes "v \<in> set (check_javascript_security file_path content)"
  shows "1 \<le> v_line v \<and> v_line v \<le> length (split_lines content)
         \<and> (re_search False js_eval_re (split_lines content ! (v_line v - 1))
            \<or> re_search False js_proto_re (split_lines content ! (v_line v - 1)))"
  using assms
  by (auto simp: check_javascript_security_def set_enumerate1 finding_def split: if_splits)

lemma python_findings_sound:
  assumes "v \<in> set (check_python_security file_path content)"
  shows "1 \<le> v_line v \<and> v_line v \<le> length (split_lines content)
         \<and> re_search False py_import_re (split_lines content ! (v_line v - 1))"
  using assms
  by (auto simp: check_python_security_def set_enumerate1 finding_def split: if_splits)

lemma java_findings_sound:
  assumes "v \<in> set (check_java_security file_path content)"
  shows "1 \<le> v_line v \<and> v_line v \<le> length (split_lines content)
         \<and> re_search False java_xml_re (split_lines content ! (v_line v - 1))"
  using assms
  by (auto simp: check_java_security_def set_enumerate1 finding_def split: if_splits)

lemma php_findings_sound:
  assumes "v \<in> set (check_php_security file_path content)"
  shows "1 \<le> v_line v \<and> v_line v \<le> length (split_lines content)
         \<and> list_ex (\<lambda>func. re_search False (php_call_re func) (split_lines content ! (v_line v - 1)))
              dangerous_functions"
proof -
  from assms obtain n l func where nl: "(n, l) \<in> set (enumerate1 (split_lines content))"
    and f: "func \<in> set dangerous_functions" and m: "re_search False (php_call_re func) l"
    and v: "v_line v = n"
    by (auto simp: check_php_security_def finding_def split: if_splits)
  from nl have "1 \<le> n \<and> n \<le> length (split_lines content) \<and> l = split_lines content ! (n - 1)"
    by (simp add: set_enumerate1)
  with f m v show ?thesis
    by (auto simp: list_ex_iff)
qed

lemma language_findings_sound:
  assumes "v \<in> set (check_language_specific file_path content)"
  shows "1 \<le> v_line v \<and> v_line v \<le> length (split_lines content)
         \<and> list_ex (\<lambda>r. re_search False r (split_lines content ! (v_line v - 1))) language_patterns"
proof -
  consider "v \<in> set (check_javascript_security file_path content)"
    | "v \<in> set (check_python_security file_path content)"
    | "v \<in> set (check_java_security file_path content)"
    | "v \<in> set (check_php_security file_path content)"
    using assms by (auto simp: check_language_specific_def Let_def split: if_splits)
  then show ?thesis
  proof cases
    case 1
    from javascript_findings_sound [OF 1] show ?thesis
      by (auto simp: language_patterns_def)
  next
    case 2
    from python_findings_sound [OF 2] show ?thesis
      by (auto simp: language_patterns_def)
  next
    case 3
    from java_findings_sound [OF 3] show ?thesis
      by (auto simp: language_patterns_def)
  next
    case 4
    from php_findings_sound [OF 4] show ?thesis
      by (auto simp: language_patterns_def list_ex_iff)
  qed
qed

lemma scan_file_parts:
  assumes "v \<in> set (scan_file fs file_path)"
  obtains content where "fs file_path = Some (File content)"
    and "v \<in> set (catalog_findings file_path (split_lines content))
         \<or> v \<in> set (check_language_specific file_path content)"
proof (cases "fs file_path")
  case None
  with assms show ?thesis by (simp add: scan_file_def)
next
  case (Some e)
  show ?thesis
  proof (cases e)
    case Unreadable
    with Some assms show ?thesis by (simp add: scan_file_def)
  next
    case (File content)
    with Some assms that [of content] show ?thesis by (auto simp: scan_file_def)
  qed
qed

lemma scan_file_sound:
  assumes "v \<in> set (scan_file fs file_path)"
  shows "\<exists>content. fs file_path = Some (File content)
           \<and> 1 \<le> v_line v \<and> v_line v \<le> length (split_lines content)
           \<and> \<not> unmatched (split_lines content ! (v_line v - 1))"
proof -
  from assms obtain content where c: "fs file_path = Some (File content)"
    and v: "v \<in> set (catalog_findings file_path (split_lines content))
            \<or> v \<in> set (check_language_specific file_path content)"
    by (rule scan_file_parts)
  from v have "1 \<le> v_line v \<and> v_line v \<le> length (split_lines content)
               \<and> \<not> unmatched (split_lines content ! (v_line v - 1))"
  proof
    assume "v \<in> set (catalog_findings file_path (split_lines content))"
    from catalog_findings_sound [OF this] show ?thesis
      by (auto simp: unmatched_def no_rule_matches_def list_ex_iff list_all_iff)
  next
    assume "v \<in> set (check_language_specific file_path content)"
    from language_findings_sound [OF this] show ?thesis
      by (auto simp: unmatched_def list_ex_iff list_all_iff)
  qed
  with c show ?thesis by blast
qed

lemma sql_line_unmatched: "unmatched sql_line"
  using sql_line_sql_injection sql_line_xss sql_line_insecure_crypto sql_line_hardcoded_secrets
    sql_line_path_traversal sql_line_insecure_deserialization sql_line_command_injection
    sql_line_insecure_transport sql_line_language
  by (simp add: unmatched_def no_rule_matches_def load_security_patterns_def)

lemma sql_line_lines: "split_lines sql_line = [sql_line]"
  by (simp add: split_lines_def sql_line_def newline_def dquote_def)

text \<open>
  Claim C4, as stated, fails: the scan of a file that consists of the line of Scenario A
  produces no finding at all, so no finding of category \<open>sql_injection\<close>.
\<close>

theorem scenario_a_counterexample: "scan_file sql_fs ''app.js'' = []"
proof (rule ccontr)
  assume "scan_file sql_fs ''app.js'' \<noteq> []"
  then obtain v where "v \<in> set (scan_file sql_fs ''app.js'')"
    by (cases "scan_file sql_fs ''app.js''") auto
  from scan_file_sound [OF this] have "\<not> unmatched sql_line"
    by (auto simp: sql_fs_def sql_line_lines)
  with sql_line_unmatched show False by simp
qed

text \<open>
  Claim C4, amended. Scanning a file that contains the line
  \<^verbatim>\<open>query("SELECT * FROM users WHERE id=" + userId)\<close> produces no finding at that line,
  whatever the extension of the file: both patterns of \<open>sql_injection\<close> ask for a quote
  after the \<open>+\<close>, which the line does not have, and no other pattern matches it.
\<close>

theorem scenario_a_no_finding:
  assumes "fs file_path = Some (File content)"
    and "1 \<le> n" and "n \<le> length (split_lines content)"
    and "split_lines content ! (n - 1) = sql_line"
  shows "list_all (\<lambda>v. v_line v \<noteq> n) (scan_file fs file_path)"
proof -
  have "v_line v \<noteq> n" if "v \<in> set (scan_file fs file_path)" for v
  proof
    assume "v_line v = n"
    with scan_file_sound [OF that] assms have "\<not> unmatched sql_line"
      by auto
    with sql_line_unmatched show False by simp
  qed
  then show ?thesis by (simp add: list_all_iff)
qed

theorem scenario_a_no_finding_witness:
  "sql_fs ''app.js'' = Some (File sql_line) \<and> (1::nat) \<le> 1 \<and> 1 \<le> length (split_lines sql_line)
   \<and> split_lines sql_line ! (1 - 1) = sql_line
   \<and> list_all (\<lambda>v. v_line v \<noteq> 1) (scan_file sql_fs ''app.js'')"
proof -
  have a: "sql_fs ''app.js'' = Some (File sql_line)"
    by (simp add: sql_fs_def)
  have b: "(1::nat) \<le> 1" by simp
  have c: "1 \<le> length (split_lines sql_line)"
    by (simp add: sql_line_lines)
  have d: "split_lines sql_line ! (1 - 1) = sql_line"
    by (simp add: sql_line_lines)
  show ?thesis
    using a b c d
      scenario_a_no_finding [where fs = sql_fs and file_path = "''app.js''" and content = sql_line and n = 1]
    by simp
qed


section \<open>Searching without regard to case\<close>

lemma upper_to_lower: "upper_case n \<Longrightarrow> lower_case (n + 32) \<and> \<not> lower_case n"
  unfolding upper_case_def lower_case_def by arith
lemma lower_to_upper: "lower_case n \<Longrightarrow> upper_case (n - 32) \<and> \<not> upper_case n \<and> 32 \<le> n"
  unfolding upper_case_def lower_case_def by arith
lemma lowered: "\<not> upper_case (lower_code n)"
  using upper_to_lower [of n] lower_to_upper [of "n + 32"] by (auto simp: lower_code_def)

lemma same_letter_cases:
  "same_letter n n' \<longleftrightarrow> n = n' \<or> (upper_case n \<and> n' = n + 32) \<or> (upper_case n' \<and> n = n' + 32)"
proof (cases "upper_case n"; cases "upper_case n'")
  assume a: "upper_case n" "upper_case n'"
  then show ?thesis
    using upper_to_lower [of n] upper_to_lower [of n'] lower_to_upper [of "n + 32"]  lower_to_upper [of "n' + 32"]
    by (auto simp: same_letter_def lower_code_def)
next
  assume a: "upper_case n" "\<not> upper_case n'"
  then show ?thesis
    by (auto simp: same_letter_def lower_code_def)
next
  assume a: "\<not> upper_case n" "upper_case n'"
  then show ?thesis
    by (auto simp: same_letter_def lower_code_def)
next
  assume a: "\<not> upper_case n" "\<not> upper_case n'"
  then show ?thesis
    using upper_to_lower [of n] upper_to_lower [of n'] lower_to_upper [of "n + 32"]  lower_to_upper [of "n' + 32"]
    by (auto simp: same_letter_def lower_code_def)
qed

lemma upper_case_facts:
  assumes "upper_case n"
  shows "n \<noteq> 10 \<and> n + 32 \<noteq> 10 \<and> \<not> space_code n \<and> \<not> space_code (n + 32)
         \<and> word_code n \<and> word_code (n + 32)"
  using assms unfolding upper_case_def space_code_def word_code_def by arith

lemma upper_code_pair:
  assumes "upper_case n"
  shows "upper_code n = n \<and> upper_code (n + 32) = n"
  using upper_to_lower [OF assms] by (simp add: upper_code_def)

lemma dot_fold: "same_letter n n' \<Longrightarrow> (n \<noteq> 10) = (n' \<noteq> 10)"
  using upper_case_facts [of n] upper_case_facts [of n'] by (auto simp: same_letter_cases)

lemma upper_fold: "same_letter n n' \<Longrightarrow> upper_code n = upper_code n'"
  using upper_code_pair [of n] upper_code_pair [of n'] by (auto simp: same_letter_cases)

lemma space_fold: "same_letter n n' \<Longrightarrow> space_code n = space_code n'"
  using upper_case_facts [of n] upper_case_facts [of n'] by (auto simp: same_letter_cases)

lemma word_fold: "same_letter n n' \<Longrightarrow> word_code n = word_code n'"
  using upper_case_facts [of n] upper_case_facts [of n'] by (auto simp: same_letter_cases)

lemma chr_fold:
  "(n = lower_code k \<or> n = upper_code k) \<longleftrightarrow> same_letter n k"
proof
  assume "n = lower_code k \<or> n = upper_code k"
  then show "same_letter n k"
  proof
    assume "n = lower_code k"
    with lowered [of k] show ?thesis by (simp add: same_letter_def lower_code_def)
  next
    assume n: "n = upper_code k"
    show ?thesis
    proof (cases "lower_case k")
      case True
      with n lower_to_upper [of k] show ?thesis
        by (simp add: same_letter_def lower_code_def upper_code_def)
    next
      case False
      with n show ?thesis by (simp add: same_letter_def upper_code_def)
    qed
  qed
next
  assume "same_letter n k"
  then consider "n = k" | "upper_case n" "k = n + 32" | "upper_case k" "n = k + 32"
    by (auto simp: same_letter_cases)
  then show "n = lower_code k \<or> n = upper_code k"
  proof cases
    case 1
    with upper_to_lower [of k] show ?thesis
      by (cases "upper_case k") (simp_all add: lower_code_def upper_code_def)
  next
    case 2
    with upper_code_pair [of n] show ?thesis by simp
  next
    case 3
    then show ?thesis by (simp add: lower_code_def)
  qed
qed
lemma amatch_fold:
  assumes "same_letter n n'"
  shows "amatch True a n = amatch True a n'"
proof (cases a)
  case (Chr p)
  have "amatch True (Chr p) m = same_letter m (code p)" for m
    by (simp add: Let_def chr_fold)
  with assms Chr show ?thesis by (simp add: same_letter_def)
next
  case Dot
  with dot_fold [OF assms] show ?thesis by simp
next
  case (Class rs)
  with assms upper_fold [OF assms] show ?thesis by (simp add: same_letter_def)
next
  case Space
  with space_fold [OF assms] show ?thesis by simp
qed

lemma advance_fold:
  assumes "list_all2 same_letter s s'" and "\<And>n n'. same_letter n n' \<Longrightarrow> m n = m n'"
  shows "advance m s bs = advance m s' bs"
  using assms(1)
proof (induction arbitrary: bs rule: list_all2_induct)
  case Nil
  show ?case by simp
next
  case (Cons c cs c' cs')
  then show ?case
    by (cases bs) (simp_all add: assms(2))
qed

lemma many_fold:
  assumes "list_all2 same_letter s s'" and "\<And>n n'. same_letter n n' \<Longrightarrow> m n = m n'"
  shows "many m carry s bs = many m carry s' bs"
  using assms(1)
proof (induction arbitrary: bs carry rule: list_all2_induct)
  case Nil
  show ?case by (cases bs) simp_all
next
  case (Cons c cs c' cs')
  have "m c = m c'" using Cons.hyps(1) by (rule assms(2))
  with Cons.IH show ?case
    by (cases bs) simp_all
qed

lemma word_before_fold:
  assumes "rel_option same_letter prev prev'"
  shows "word_before prev = word_before prev'"
  using assms by (cases prev; cases prev') (simp_all add: word_before_def word_fold)

lemma boundary_fold:
  assumes "list_all2 same_letter s s'" and "rel_option same_letter prev prev'"
  shows "boundary prev s bs = boundary prev' s' bs"
  using assms
proof (induction arbitrary: bs prev prev' rule: list_all2_induct)
  case Nil
  then show ?case by (cases bs) (simp_all add: word_before_fold)
next
  case (Cons c cs c' cs')
  have "boundary (Some c) cs bs' = boundary (Some c') cs' bs'" for bs'
    by (rule Cons.IH) (simp add: Cons.hyps)
  moreover have "word_code c = word_code c'"
    using Cons.hyps(1) by (rule word_fold)
  moreover have "word_before prev = word_before prev'"
    using Cons.prems by (rule word_before_fold)
  ultimately show ?case
    by (cases bs) simp_all
qed

lemma not_ahead_fold:
  assumes "list_all2 same_letter s s'" and "rel_option same_letter prev prev'"
    and "\<And>p p' r r'. rel_option same_letter p p' \<Longrightarrow> list_all2 same_letter r r' \<Longrightarrow> m p r = m p' r'"
  shows "not_ahead m prev s bs = not_ahead m prev' s' bs"
  using assms(1,2)
proof (induction arbitrary: bs prev prev' rule: list_all2_induct)
  case Nil
  have "m prev [] = m prev' []"
    by (rule assms(3)) (simp_all add: Nil)
  then show ?case by (cases bs) simp_all
next
  case (Cons c cs c' cs')
  have "not_ahead m (Some c) cs bs' = not_ahead m (Some c') cs' bs'" for bs'
    by (rule Cons.IH) (simp add: Cons.hyps)
  moreover have "m prev (c # cs) = m prev' (c' # cs')"
    by (rule assms(3)) (simp_all add: Cons.prems Cons.hyps)
  ultimately show ?case
    by (cases bs) simp_all
qed

lemma step_fold:
  assumes "list_all2 same_letter s s'" and "rel_option same_letter prev prev'"
  shows "step r True prev s bs = step r True prev' s' bs"
  using assms
proof (induction r arbitrary: s s' prev prev' bs)
  case Eps
  show ?case by simp
next
  case (One a)
  then show ?case by (simp add: advance_fold [OF One(1)] amatch_fold)
next
  case (Many a)
  then show ?case by (simp add: many_fold [OF Many(1)] amatch_fold)
next
  case (AtLeast n a)
  have "advance (amatch True a) s x = advance (amatch True a) s' x" for x
    by (rule advance_fold [OF AtLeast(1)]) (rule amatch_fold)
  then show ?case
    by (simp add: many_fold [OF AtLeast(1)] amatch_fold)
next
  case WordB
  then show ?case by (simp add: boundary_fold)
next
  case (Seq r1 r2)
  from Seq.IH(1) [OF Seq.prems] Seq.IH(2) [OF Seq.prems] show ?case by simp
next
  case (Alt r1 r2)
  from Alt.IH(1) [OF Alt.prems] Alt.IH(2) [OF Alt.prems] show ?case by simp
next
  case (NotAhead r)
  have "list_ex id (step r True p rest (from_start rest))
          = list_ex id (step r True p' rest' (from_start rest'))"
    if "rel_option same_letter p p'" and "list_all2 same_letter rest rest'" for p p' rest rest'
  proof -
    have "from_start rest = from_start rest'"
      using that(2) by (simp add: from_start_def list_all2_lengthD)
    with NotAhead.IH [OF that(2) that(1)] show ?thesis by simp
  qed
  then show ?case
    using NotAhead.prems by (simp add: not_ahead_fold)
qed

lemma code_lower: "code (py_lower c) = lower_code (code c)"
proof -
  have "code c < 256" by (simp add: code_def)
  then have "lower_code (code c) < 256"
    unfolding lower_code_def upper_case_def by arith
  then show ?thesis by (simp add: py_lower_def code_def)
qed

lemma lower_same_letters:
  assumes "lower l = lower l'"
  shows "list_all2 same_letter (map code l) (map code l')"
proof -
  from assms have len: "length l = length l'"
    by (metis length_map lower_def)
  have "same_letter (code (l ! i)) (code (l' ! i))" if "i < length l" for i
  proof -
    from assms that len have "py_lower (l ! i) = py_lower (l' ! i)"
      by (metis lower_def nth_map)
    then have "code (py_lower (l ! i)) = code (py_lower (l' ! i))" by simp
    then show ?thesis by (simp add: code_lower same_letter_def)
  qed
  with len show ?thesis
    by (simp add: list_all2_conv_all_nth)
qed

lemma re_search_fold:
  assumes "lower l = lower l'"
  shows "re_search True r l = re_search True r l'"
proof -
  from assms have "length l = length l'"
    by (metis length_map lower_def)
  with step_fold [OF lower_same_letters [OF assms], of None None r] show ?thesis
    by (simp add: re_search_def)
qed


section \<open>One rule, one line\<close>

lemma enumerate1_snoc: "enumerate1 (xs @ [x]) = enumerate1 xs @ [(Suc (length xs), x)]"
  by (simp add: enumerate1_def del: upt_Suc add: upt_Suc_append)

lemma count_where_map: "count_where Q (map f xs) = count_where (\<lambda>x. Q (f x)) xs"
  by (induction xs) (simp_all add: count_where_Nil count_where_Cons)

lemma count_where_filter: "count_where Q (filter M xs) = count_where (\<lambda>x. M x \<and> Q x) xs"
  by (induction xs) (simp_all add: count_where_Nil count_where_Cons)

lemma count_where_concat: "count_where Q (concat xss) = sum_list (map (count_where Q) xss)"
  by (induction xss) (simp_all add: count_where_Nil count_where_append)

lemma count_where_False: "count_where (\<lambda>x. False) xs = 0"
  by (simp add: count_where_def)

lemma count_enumerate1:
  "count_where (\<lambda>(m, l). m = n \<and> P l) (enumerate1 xs)
     = (if 1 \<le> n \<and> n \<le> length xs \<and> P (xs ! (n - 1)) then 1 else 0)"
proof (induction xs rule: rev_induct)
  case Nil
  show ?case by (simp add: enumerate1_Nil count_where_Nil)
next
  case (snoc x xs)
  show ?case
  proof (cases "n = Suc (length xs)")
    case True
    with snoc.IH have "count_where (\<lambda>(m, l). m = n \<and> P l) (enumerate1 xs) = 0"
      by simp
    with True show ?thesis
      by (simp add: enumerate1_snoc count_where_append count_where_Cons count_where_Nil)
  next
    case False
    then have "(1 \<le> n \<and> n \<le> length (xs @ [x]) \<and> P ((xs @ [x]) ! (n - 1)))
               = (1 \<le> n \<and> n \<le> length xs \<and> P (xs ! (n - 1)))"
      by (auto simp: nth_append)
    with False snoc.IH show ?thesis
      by (simp add: enumerate1_snoc count_where_append count_where_Cons count_where_Nil)
  qed
qed

lemma count_rule_findings:
  "count_where (\<lambda>v. v_pattern v = Some q \<and> v_line v = n) (rule_findings file_path cat info lines)
     = (if pattern info = q \<and> 1 \<le> n \<and> n \<le> length lines \<and> re_search True q (lines ! (n - 1))
        then 1 else 0)"
proof (cases "pattern info = q")
  case True
  have "count_where (\<lambda>v. v_pattern v = Some q \<and> v_line v = n) (rule_findings file_path cat info lines)
          = count_where (\<lambda>(m, l). m = n \<and> re_search True q l) (enumerate1 lines)"
    unfolding rule_findings_def count_where_map count_where_filter
    by (rule arg_cong [where f = "\<lambda>P. count_where P (enumerate1 lines)"]) (auto simp: True)
  then show ?thesis
    by (simp add: count_enumerate1 True)
next
  case False
  have "count_where (\<lambda>v. v_pattern v = Some q \<and> v_line v = n) (rule_findings file_path cat info lines)
          = count_where (\<lambda>x. False) (enumerate1 lines)"
    unfolding rule_findings_def count_where_map count_where_filter
    by (rule arg_cong [where f = "\<lambda>P. count_where P (enumerate1 lines)"]) (auto simp: False)
  with False show ?thesis
    by (simp add: count_where_False)
qed

lemma count_category_findings:
  "count_where (\<lambda>v. v_pattern v = Some q \<and> v_line v = n)
     (concat (map (\<lambda>info. rule_findings file_path cat info lines) infos))
     = (if 1 \<le> n \<and> n \<le> length lines \<and> re_search True q (lines ! (n - 1))
        then count_where (\<lambda>info. pattern info = q) infos else 0)"
  by (induction infos)
     (simp_all add: count_where_Nil count_where_Cons count_where_append count_rule_findings)

lemma count_entries_findings:
  "count_where (\<lambda>v. v_pattern v = Some q \<and> v_line v = n)
     (concat (map (category_findings file_path lines) entries))
     = (if 1 \<le> n \<and> n \<le> length lines \<and> re_search True q (lines ! (n - 1))
        then count_where (\<lambda>info. pattern info = q) (concat (map snd entries)) else 0)"
  by (induction entries)
     (simp_all add: count_where_Nil count_where_append category_findings_def
        count_category_findings)

lemma count_catalog_findings:
  "count_where (\<lambda>v. v_pattern v = Some q \<and> v_line v = n) (catalog_findings file_path lines)
     = (if 1 \<le> n \<and> n \<le> length lines \<and> re_search True q (lines ! (n - 1))
        then count_where (\<lambda>info. pattern info = q) all_rules else 0)"
  by (simp add: catalog_findings_def all_rules_def count_entries_findings)

lemma count_where_distinct:
  assumes "distinct (map f xs)" and "x \<in> set xs"
  shows "count_where (\<lambda>y. f y = f x) xs = 1"
  using assms
proof (induction xs)
  case Nil
  then show ?case by simp
next
  case (Cons y ys)
  show ?case
  proof (cases "f y = f x")
    case True
    from Cons.prems have "f y \<notin> f ` set ys"
      by simp
    with True have "\<And>z. z \<in> set ys \<Longrightarrow> f z \<noteq> f x"
      by (metis imageI)
    then have "filter (\<lambda>z. f z = f x) ys = []"
      by (simp add: filter_empty_conv)
    with True show ?thesis
      by (simp add: count_where_def)
  next
    case False
    with Cons.prems have "x \<in> set ys" by auto
    with Cons.IH Cons.prems False show ?thesis
      by (simp add: count_where_Cons)
  qed
qed

lemma all_rules_distinct: "distinct (map pattern all_rules)"
  by (simp add: all_rules_def load_security_patterns_def sql_injection_rules_def xss_rules_def
        insecure_crypto_rules_def hardcoded_secrets_rules_def path_traversal_rules_def
        insecure_deserialization_rules_def command_injection_rules_def
        insecure_transport_rules_def quote_def lit_def)

lemma count_where_indicator:
  "sum_list (map (\<lambda>x. if P x then (1::int) else 0) xs) = count_where P xs"
  by (induction xs) (simp_all add: count_where_Nil count_where_Cons)

lemma count_per_line:
  assumes "\<And>m l. count_where Q (g (m, l)) = (if m = n \<and> P l then 1 else 0)"
  shows "count_where Q (concat (map g (enumerate1 xs)))
           = (if 1 \<le> n \<and> n \<le> length xs \<and> P (xs ! (n - 1)) then 1 else 0)"
proof -
  have "count_where Q (g x) = (if (case x of (m, l) \<Rightarrow> m = n \<and> P l) then 1 else 0)" for x
    by (cases x) (simp add: assms)
  then have "sum_list (map (\<lambda>x. count_where Q (g x)) ys)
               = count_where (\<lambda>(m, l). m = n \<and> P l) ys" for ys
    by (simp add: count_where_indicator)
  then have "count_where Q (concat (map g (enumerate1 xs)))
          = count_where (\<lambda>(m, l). m = n \<and> P l) (enumerate1 xs)"
    by (simp add: count_where_concat comp_def)
  then show ?thesis
    by (simp add: count_enumerate1)
qed

lemma count_javascript_eval:
  "count_where (\<lambda>v. v_category v = ''code_injection'' \<and> v_line v = n)
     (check_javascript_security file_path content)
     = (if 1 \<le> n \<and> n \<le> length (split_lines content)
           \<and> re_search False js_eval_re (split_lines content ! (n - 1))
        then 1 else 0)"
  unfolding check_javascript_security_def
  by (rule count_per_line)
     (simp add: count_where_Nil count_where_Cons count_where_append finding_def)

lemma count_javascript_proto:
  "count_where (\<lambda>v. v_category v = ''prototype_pollution'' \<and> v_line v = n)
     (check_javascript_security file_path content)
     = (if 1 \<le> n \<and> n \<le> length (split_lines content)
           \<and> re_search False js_proto_re (split_lines content ! (n - 1))
        then 1 else 0)"
  unfolding check_javascript_security_def
  by (rule count_per_line)
     (simp add: count_where_Nil count_where_Cons count_where_append finding_def)

lemma count_python:
  "count_where (\<lambda>v. v_category v = ''insecure_deserialization'' \<and> v_line v = n)
     (check_python_security file_path content)
     = (if 1 \<le> n \<and> n \<le> length (split_lines content)
           \<and> re_search False py_import_re (split_lines content ! (n - 1))
        then 1 else 0)"
  unfolding check_python_security_def
  by (rule count_per_line) (simp add: count_where_Nil count_where_Cons finding_def)

lemma count_java:
  "count_where (\<lambda>v. v_category v = ''xxe'' \<and> v_line v = n)
     (check_java_security file_path content)
     = (if 1 \<le> n \<and> n \<le> length (split_lines content)
           \<and> re_search False java_xml_re (split_lines content ! (n - 1))
        then 1 else 0)"
  unfolding check_java_security_def
  by (rule count_per_line) (simp add: count_where_Nil count_where_Cons finding_def)

lemma php_message_inj: "php_message a = php_message b \<longleftrightarrow> a = b"
  by (simp add: php_message_def)

lemma count_php_line:
  "count_where (\<lambda>v. v_message v = php_message func \<and> v_line v = n)
     (concat (map (\<lambda>f. if re_search False (php_call_re f) l
                         then [finding file_path m ''command_injection'' ''high'' (php_message f) l]
                         else []) funcs))
     = (if m = n \<and> re_search False (php_call_re func) l
        then count_where (\<lambda>f. f = func) funcs else 0)"
  by (induction funcs)
     (auto simp: count_where_Nil count_where_Cons count_where_append finding_def php_message_inj)

lemma dangerous_function_once:
  assumes "func \<in> set dangerous_functions"
  shows "count_where (\<lambda>f. f = func) dangerous_functions = 1"
  using assms by (auto simp: dangerous_functions_def count_where_Nil count_where_Cons)

lemma count_php:
  assumes "func \<in> set dangerous_functions"
  shows "count_where (\<lambda>v. v_message v = php_message func \<and> v_line v = n)
     (check_php_security file_path content)
     = (if 1 \<le> n \<and> n \<le> length (split_lines content)
           \<and> re_search False (php_call_re func) (split_lines content ! (n - 1))
        then 1 else 0)"
  unfolding check_php_security_def
  by (rule count_per_line) (simp add: count_php_line dangerous_function_once [OF assms])


section \<open>Rules and lines\<close>

lemma md5_rule_listed: "md5_rule \<in> set all_rules"
  by (simp add: md5_rule_def all_rules_def load_security_patterns_def insecure_crypto_rules_def)

lemma md5_upper_case: "re_search True (pattern md5_rule) ''MD5(x)''"
  by (simp add: md5_rule_def insecure_crypto_rules_def re_eval)

lemma eval_is_dangerous: "''eval'' \<in> set dangerous_functions"
  by (simp add: dangerous_functions_def)

lemma md5_same_lower: "lower ''MD5(x)'' = lower ''md5(x)''"
  by (simp add: lower_def py_lower_def lower_code_def upper_case_def code_def char_eval)

text \<open>
  Claim C9, as stated, fails for the language-specific rules: they are searched without
  \<open>re.IGNORECASE\<close>. The JavaScript check for \<open>eval\<close> finds nothing on the line
  \<^verbatim>\<open>EVAL(x)\<close>, which its pattern matches when case is ignored.
\<close>

theorem javascript_case_counterexample:
  "re_search True js_eval_re ''EVAL(x)'' \<and> check_javascript_security ''a.js'' ''EVAL(x)'' = []"
  by (simp add: check_javascript_security_def split_lines_def enumerate1_def js_eval_re_def
        js_proto_re_def re_eval)

text \<open>
  Claim C9, amended. Every rule of the catalog is tested on every line without regard to
  case (two lines that differ only in the case of their letters give the same answer),
  and it produces exactly one finding for a line it matches and none for any other, so
  rules that match the same line each produce their own finding. The language-specific
  rules are tested with regard to case; each of them (the two JavaScript checks, the
  Python check, the Java check, and the PHP check of each dangerous function) produces
  exactly one finding for a line it matches and none for any other.
\<close>

theorem one_finding_per_rule_and_line:
  assumes "info \<in> set all_rules" and "func \<in> set dangerous_functions"
  shows "count_where (\<lambda>v. v_pattern v = Some (pattern info) \<and> v_line v = n)
           (catalog_findings file_path lines)
         = (if 1 \<le> n \<and> n \<le> length lines \<and> re_search True (pattern info) (lines ! (n - 1))
            then 1 else 0)
       \<and> (lower l = lower l' \<longrightarrow> re_search True (pattern info) l = re_search True (pattern info) l')
       \<and> count_where (\<lambda>v. v_category v = ''code_injection'' \<and> v_line v = n)
           (check_javascript_security file_path content)
         = (if 1 \<le> n \<and> n \<le> length (split_lines content)
               \<and> re_search False js_eval_re (split_lines content ! (n - 1))
            then 1 else 0)
       \<and> count_where (\<lambda>v. v_category v = ''prototype_pollution'' \<and> v_line v = n)
           (check_javascript_security file_path content)
         = (if 1 \<le> n \<and> n \<le> length (split_lines content)
               \<and> re_search False js_proto_re (split_lines content ! (n - 1))
            then 1 else 0)
       \<and> count_where (\<lambda>v. v_category v = ''insecure_deserialization'' \<and> v_line v = n)
           (check_python_security file_path content)
         = (if 1 \<le> n \<and> n \<le> length (split_lines content)
               \<and> re_search False py_import_re (split_lines content ! (n - 1))
            then 1 else 0)
       \<and> count_where (\<lambda>v. v_category v = ''xxe'' \<and> v_line v = n)
           (check_java_security file_path content)
         = (if 1 \<le> n \<and> n \<le> length (split_lines content)
               \<and> re_search False java_xml_re (split_lines content ! (n - 1))
            then 1 else 0)
       \<and> count_where (\<lambda>v. v_message v = php_message func \<and> v_line v = n)
           (check_php_security file_path content)
         = (if 1 \<le> n \<and> n \<le> length (split_lines content)
               \<and> re_search False (php_call_re func) (split_lines content ! (n - 1))
            then 1 else 0)"
proof -
  have "count_where (\<lambda>i. pattern i = pattern info) all_rules = 1"
    using all_rules_distinct assms(1) by (rule count_where_distinct)
  then have "count_where (\<lambda>v. v_pattern v = Some (pattern info) \<and> v_line v = n)
           (catalog_findings file_path lines)
         = (if 1 \<le> n \<and> n \<le> length lines \<and> re_search True (pattern info) (lines ! (n - 1))
            then 1 else 0)"
    by (simp add: count_catalog_findings)
  moreover have "lower l = lower l' \<longrightarrow> re_search True (pattern info) l = re_search True (pattern info) l'"
    by (rule impI) (rule re_search_fold)
  ultimately show ?thesis
    by (simp only: count_javascript_eval count_javascript_proto count_python count_java
          count_php [OF assms(2)] simp_thms)
qed

theorem one_finding_per_rule_and_line_witness:
  "md5_rule \<in> set all_rules
   \<and> ''eval'' \<in> set dangerous_functions
   \<and> count_where (\<lambda>v. v_pattern v = Some (pattern md5_rule) \<and> v_line v = 1)
        (catalog_findings ''a.py'' [''MD5(x)'']) = 1
   \<and> lower ''MD5(x)'' = lower ''md5(x)''
   \<and> re_search True (pattern md5_rule) ''md5(x)''"
  using md5_rule_listed md5_upper_case md5_same_lower eval_is_dangerous
    one_finding_per_rule_and_line [OF md5_rule_listed eval_is_dangerous,
      where n = 1 and file_path = "''a.py''" and lines = "[''MD5(x)'']"
        and l = "''MD5(x)''" and l' = "''md5(x)''"]
  by simp


section \<open>The order of the findings\<close>

lemma rule_findings_lines:
  "map v_line (rule_findings file_path cat info lines)
     = map fst (filter (\<lambda>(line_num, line). re_search True (pattern info) line) (enumerate1 lines))"
  by (simp add: rule_findings_def comp_def case_prod_unfold)

lemma enumerate1_numbers: "map fst (enumerate1 xs) = [1..<Suc (length xs)]"
  by (simp add: enumerate1_def del: upt_Suc)

lemma rule_findings_ascending:
  "sorted_wrt (<) (map v_line (rule_findings file_path cat info lines))"
proof -
  have "sorted_wrt (<) (map fst (enumerate1 lines))"
    by (simp only: enumerate1_numbers sorted_wrt_upt)
  then have "sorted_wrt (\<lambda>a b. fst a < fst b) (enumerate1 lines)"
    by (simp add: sorted_wrt_map)
  then have "sorted_wrt (\<lambda>a b. fst a < fst b)
               (filter (\<lambda>(line_num, line). re_search True (pattern info) line) (enumerate1 lines))"
    by (rule sorted_wrt_filter)
  then show ?thesis
    by (simp only: rule_findings_lines sorted_wrt_map)
qed

lemma rule_findings_pattern:
  "v \<in> set (rule_findings file_path cat info lines) \<Longrightarrow> v_pattern v = Some (pattern info)"
  by (auto simp: rule_findings_def)

lemma index_fresh:
  assumes "q \<notin> set pre"
  shows "length (takeWhile (\<lambda>x. Some x \<noteq> Some q) (pre @ q # post)) = length pre"
  using assms by (induction pre) auto

lemma index_later:
  assumes "q \<notin> set pre"
  shows "length pre \<le> length (takeWhile (\<lambda>x. Some x \<noteq> Some q) (pre @ post))"
  using assms by (induction pre) auto

lemma sorted_blocks:
  fixes f :: "string \<times> pattern_info \<Rightarrow> regex" and full :: "(string \<times> pattern_info) list"
  defines "idx \<equiv> \<lambda>v. length (takeWhile (\<lambda>q. Some q \<noteq> v_pattern v) (map (\<lambda>e. pattern (snd e)) full))"
  assumes "full = pre @ ps" and "distinct (map (\<lambda>e. pattern (snd e)) full)"
  shows "sorted_wrt (\<lambda>a b. idx a < idx b \<or> (idx a = idx b \<and> v_line a < v_line b))
           (concat (map (\<lambda>e. rule_findings file_path (fst e) (snd e) lines) ps))
         \<and> (\<forall>v \<in> set (concat (map (\<lambda>e. rule_findings file_path (fst e) (snd e) lines) ps)).
              length pre \<le> idx v)"
  using assms(2)
proof (induction ps arbitrary: pre)
  case Nil
  show ?case by simp
next
  case (Cons e ps)
  let ?block = "rule_findings file_path (fst e) (snd e) lines"
  let ?rest = "concat (map (\<lambda>e. rule_findings file_path (fst e) (snd e) lines) ps)"
  let ?R = "\<lambda>a b. idx a < idx b \<or> (idx a = idx b \<and> v_line a < v_line b)"
  have full: "full = (pre @ [e]) @ ps"
    using Cons.prems by simp
  from Cons.IH [OF full]
  have rest_sorted: "sorted_wrt ?R ?rest" and rest_later: "\<forall>v \<in> set ?rest. Suc (length pre) \<le> idx v"
    by simp_all
  have fresh: "pattern (snd e) \<notin> set (map (\<lambda>e. pattern (snd e)) pre)"
    using assms(3) Cons.prems by auto
  have block_idx: "idx v = length pre" if "v \<in> set ?block" for v
  proof -
    from that have "v_pattern v = Some (pattern (snd e))"
      by (rule rule_findings_pattern)
    with index_fresh [OF fresh, of "map (\<lambda>e. pattern (snd e)) ps"] show ?thesis
      by (simp add: idx_def Cons.prems)
  qed
  have "sorted_wrt (\<lambda>a b. v_line a < v_line b) ?block"
    using rule_findings_ascending [of file_path "fst e" "snd e" lines]
    by (simp add: sorted_wrt_map)
  then have block_sorted: "sorted_wrt ?R ?block"
    by (rule sorted_wrt_mono_rel [rotated]) (simp add: block_idx)
  have cross: "?R a b" if "a \<in> set ?block" and "b \<in> set ?rest" for a b
  proof -
    from rest_later that(2) have "Suc (length pre) \<le> idx b"
      by blast
    with block_idx [OF that(1)] show ?thesis by simp
  qed
  have "sorted_wrt ?R (?block @ ?rest)"
    using block_sorted rest_sorted cross by (simp add: sorted_wrt_append)
  moreover have "length pre \<le> idx v" if "v \<in> set (?block @ ?rest)" for v
  proof (cases "v \<in> set ?block")
    case True
    then show ?thesis by (simp add: block_idx)
  next
    case False
    with that have "v \<in> set ?rest" by simp
    with rest_later have "Suc (length pre) \<le> idx v" by blast
    then show ?thesis by simp
  qed
  ultimately show ?case by auto
qed

lemma catalog_findings_flat:
  "concat (map (category_findings file_path lines) entries)
     = concat (map (\<lambda>e. rule_findings file_path (fst e) (snd e) lines)
         (concat (map (\<lambda>entry. map (Pair (fst entry)) (snd entry)) entries)))"
  by (induction entries) (simp_all add: category_findings_def comp_def)

lemma flat_rules:
  "map (\<lambda>e. pattern (snd e)) (concat (map (\<lambda>entry. map (Pair (fst entry)) (snd entry)) entries))
     = map pattern (concat (map snd entries))"
  by (induction entries) (simp_all add: comp_def)

lemma catalog_findings_rule_major:
  "sorted_wrt rule_major (catalog_findings file_path lines)"
proof -
  let ?full = "concat (map (\<lambda>entry. map (Pair (fst entry)) (snd entry)) load_security_patterns)"
  have patterns: "map (\<lambda>e. pattern (snd e)) ?full = map pattern all_rules"
    by (simp only: flat_rules all_rules_def)
  have "distinct (map (\<lambda>e. pattern (snd e)) ?full)"
    by (simp only: patterns all_rules_distinct)
  with sorted_blocks [of ?full "[]" ?full file_path lines]
  have "sorted_wrt (\<lambda>a b. rule_index a < rule_index b
                        \<or> (rule_index a = rule_index b \<and> v_line a < v_line b))
          (concat (map (\<lambda>e. rule_findings file_path (fst e) (snd e) lines) ?full))"
    by (simp add: patterns rule_index_def)
  then show ?thesis
    by (simp add: catalog_findings_def catalog_findings_flat rule_major_def [abs_def])
qed

text \<open>The language-specific checks go through the lines once.\<close>

lemma per_line_sorted:
  assumes "\<And>m l v. v \<in> set (g (m, l)) \<Longrightarrow> v_line v = m"
  shows "sorted (map v_line (concat (map g (enumerate1 xs))))"
proof (induction xs rule: rev_induct)
  case Nil
  show ?case by (simp add: enumerate1_Nil)
next
  case (snoc x xs)
  have "v_line v \<le> length xs" if "v \<in> set (concat (map g (enumerate1 xs)))" for v
  proof -
    from that obtain m l where "(m, l) \<in> set (enumerate1 xs)" and "v \<in> set (g (m, l))"
      by auto
    then show ?thesis
      using assms [of v m l] by (simp add: set_enumerate1)
  qed
  moreover have "v_line v = Suc (length xs)" if "v \<in> set (g (Suc (length xs), x))" for v
    using that by (rule assms)
  moreover have "sorted (map v_line (g (Suc (length xs), x)))"
  proof -
    have "map v_line (g (Suc (length xs), x)) = replicate (length (g (Suc (length xs), x))) (Suc (length xs))"
      by (rule replicate_eqI) (auto simp: assms)
    then show ?thesis by simp
  qed
  ultimately show ?case
    using snoc.IH by (fastforce simp: enumerate1_snoc sorted_append)
qed

lemma language_findings_sorted:
  "sorted (map v_line (check_language_specific file_path content))"
proof -
  have "sorted (map v_line (check_javascript_security file_path content))"
    unfolding check_javascript_security_def
    by (rule per_line_sorted) (auto simp: finding_def split: if_splits)
  moreover have "sorted (map v_line (check_python_security file_path content))"
    unfolding check_python_security_def
    by (rule per_line_sorted) (auto simp: finding_def split: if_splits)
  moreover have "sorted (map v_line (check_java_security file_path content))"
    unfolding check_java_security_def
    by (rule per_line_sorted) (auto simp: finding_def split: if_splits)
  moreover have "sorted (map v_line (check_php_security file_path content))"
    unfolding check_php_security_def
    by (rule per_line_sorted) (auto simp: finding_def split: if_splits)
  ultimately show ?thesis
    by (simp add: check_language_specific_def Let_def)
qed

lemma eval_line_no_rule: "no_rule_matches eval_line"
  by (simp add: no_rule_matches_def eval_line_def catalog_defs re_eval)

lemma catalog_findings_none:
  assumes "\<And>l. l \<in> set lines \<Longrightarrow> no_rule_matches l"
  shows "catalog_findings file_path lines = []"
proof (rule ccontr)
  assume "catalog_findings file_path lines \<noteq> []"
  then obtain v where v: "v \<in> set (catalog_findings file_path lines)"
    by (cases "catalog_findings file_path lines") auto
  from catalog_findings_sound [OF v] have "lines ! (v_line v - 1) \<in> set lines"
    and "\<not> no_rule_matches (lines ! (v_line v - 1))"
    by (auto simp: no_rule_matches_def list_ex_iff list_all_iff)
  with assms show False by blast
qed

lemma two_evals_lines: "split_lines two_evals_text = [eval_line, eval_line]"
  by (simp add: split_lines_def two_evals_text_def eval_line_def newline_def)

lemma two_evals_javascript:
  "map (\<lambda>v. (v_category v, v_line v))
     (check_javascript_security ''a.js'' two_evals_text)
     = [(''code_injection'', 1), (''prototype_pollution'', 1),
        (''code_injection'', 2), (''prototype_pollution'', 2)]"
  unfolding check_javascript_security_def two_evals_lines
  by (simp add: enumerate1_def finding_def eval_line_def js_eval_re_def js_proto_re_def re_eval)

lemma two_evals_scan:
  "scan_file two_evals ''a.js''
     = check_javascript_security ''a.js'' two_evals_text"
proof -
  have "catalog_findings ''a.js'' [eval_line, eval_line] = []"
    by (rule catalog_findings_none) (auto simp: eval_line_no_rule)
  then show ?thesis
    by (simp add: scan_file_def two_evals_def two_evals_lines check_language_specific_def
          a_js_suffix)
qed

text \<open>
  Claim C10, as stated, fails for the language-specific findings: they come line by
  line. In a JavaScript file of two lines that both checks match, the findings of the
  \<open>eval\<close> check are not together.
\<close>

theorem line_major_counterexample:
  "map (\<lambda>v. (v_category v, v_line v)) (scan_file two_evals ''a.js'')
     = [(''code_injection'', 1), (''prototype_pollution'', 1),
        (''code_injection'', 2), (''prototype_pollution'', 2)]
   \<and> \<not> grouped (map v_category (scan_file two_evals ''a.js''))"
proof -
  have a: "map (\<lambda>v. (v_category v, v_line v)) (scan_file two_evals ''a.js'')
     = [(''code_injection'', 1), (''prototype_pollution'', 1),
        (''code_injection'', 2), (''prototype_pollution'', 2)]"
    by (simp only: two_evals_scan two_evals_javascript)
  then have "map fst (map (\<lambda>v. (v_category v, v_line v)) (scan_file two_evals ''a.js''))
     = [''code_injection'', ''prototype_pollution'', ''code_injection'', ''prototype_pollution'']"
    by simp
  then have "map v_category (scan_file two_evals ''a.js'')
     = [''code_injection'', ''prototype_pollution'', ''code_injection'', ''prototype_pollution'']"
    by (simp add: comp_def)
  then have "\<not> grouped (map v_category (scan_file two_evals ''a.js''))"
    by simp
  with a show ?thesis by simp
qed

lemma crypto_lines_findings:
  "map (\<lambda>v. (rule_index v, v_line v)) (catalog_findings file_path crypto_lines) = [(5, 2), (6, 1)]"
  by (simp add: catalog_findings_def category_findings_def rule_findings_def enumerate1_def
        crypto_lines_def rule_index_def all_rules_def catalog_defs re_eval)

lemma scan_file_of_file:
  "scan_file (fs(file_path \<mapsto> File content)) file_path
     = catalog_findings file_path (split_lines content) @ check_language_specific file_path content"
  by (simp add: scan_file_def)

lemma per_line_major:
  assumes "\<And>m l v. v \<in> set (g (m, l)) \<Longrightarrow> v_line v = m"
    and "\<And>m l. sorted_wrt line_major (g (m, l))"
  shows "sorted_wrt line_major (concat (map g (enumerate1 xs)))"
proof (induction xs rule: rev_induct)
  case Nil
  show ?case by (simp add: enumerate1_Nil)
next
  case (snoc x xs)
  have "line_major v w" if "v \<in> set (concat (map g (enumerate1 xs)))"
    and "w \<in> set (g (Suc (length xs), x))" for v w
  proof -
    from that(1) obtain m l where "(m, l) \<in> set (enumerate1 xs)" and "v \<in> set (g (m, l))"
      by auto
    then have "v_line v \<le> length xs"
      using assms(1) [of v m l] by (simp add: set_enumerate1)
    moreover have "v_line w = Suc (length xs)"
      using that(2) by (rule assms(1))
    ultimately show ?thesis by (simp add: line_major_def)
  qed
  then show ?case
    using snoc.IH assms(2) [of "Suc (length xs)" x]
    by (simp add: enumerate1_snoc sorted_wrt_append)
qed

lemma javascript_indices:
  "check_index (finding file_path m cat sev ''Use of eval() function - potential code injection risk'' l) = 0"
  "check_index (finding file_path m cat sev ''Potential prototype pollution vulnerability'' l) = 1"
  by (simp_all add: check_index_def finding_def language_messages_def)

lemma php_message_other:
  "''Use of eval() function - potential code injection risk'' \<noteq> php_message f"
  "''Potential prototype pollution vulnerability'' \<noteq> php_message f"
  "''Potentially unsafe deserialization module imported'' \<noteq> php_message f"
  "''XML parser - ensure XXE protection is enabled'' \<noteq> php_message f"
  by (simp_all add: php_message_def)

lemma php_indices:
  "check_index (finding file_path m cat sev (php_message ''eval'') l) = 4"
  "check_index (finding file_path m cat sev (php_message ''exec'') l) = 5"
  "check_index (finding file_path m cat sev (php_message ''system'') l) = 6"
  "check_index (finding file_path m cat sev (php_message ''shell_exec'') l) = 7"
  "check_index (finding file_path m cat sev (php_message ''passthru'') l) = 8"
  by (simp_all add: check_index_def finding_def language_messages_def dangerous_functions_def
        php_message_inj php_message_other)

lemma finding_line: "v_line (finding file_path m cat sev msg l) = m"
  by (simp add: finding_def)

lemma javascript_line_major:
  "sorted_wrt line_major (check_javascript_security file_path content)"
  unfolding check_javascript_security_def
proof (rule per_line_major)
  fix m l v
  assume "v \<in> set (case (m, l) of (line_num, line) \<Rightarrow>
                    (if re_search False js_eval_re line
                     then [finding file_path line_num ''code_injection'' ''high''
                             ''Use of eval() function - potential code injection risk'' line]
                     else [])
                    @ (if re_search False js_proto_re line
                       then [finding file_path line_num ''prototype_pollution'' ''medium''
                               ''Potential prototype pollution vulnerability'' line]
                       else []))"
  then show "v_line v = m"
    by (auto simp: finding_line split: if_splits)
next
  fix m l
  show "sorted_wrt line_major (case (m, l) of (line_num, line) \<Rightarrow>
                    (if re_search False js_eval_re line
                     then [finding file_path line_num ''code_injection'' ''high''
                             ''Use of eval() function - potential code injection risk'' line]
                     else [])
                    @ (if re_search False js_proto_re line
                       then [finding file_path line_num ''prototype_pollution'' ''medium''
                               ''Potential prototype pollution vulnerability'' line]
                       else []))"
    by (simp add: line_major_def finding_line javascript_indices)
qed

lemma python_line_major:
  "sorted_wrt line_major (check_python_security file_path content)"
  unfolding check_python_security_def
  by (rule per_line_major) (auto simp: finding_line split: if_splits)

lemma java_line_major:
  "sorted_wrt line_major (check_java_security file_path content)"
  unfolding check_java_security_def
  by (rule per_line_major) (auto simp: finding_line split: if_splits)

lemma php_line_major:
  "sorted_wrt line_major (check_php_security file_path content)"
  unfolding check_php_security_def
proof (rule per_line_major)
  fix m l v
  assume "v \<in> set (case (m, l) of (line_num, line) \<Rightarrow>
                    concat (map (\<lambda>func.
                                   if re_search False (php_call_re func) line
                                   then [finding file_path line_num ''command_injection'' ''high''
                                           (php_message func) line]
                                   else [])
                                dangerous_functions))"
  then show "v_line v = m"
    by (auto simp: finding_line split: if_splits)
next
  fix m l
  show "sorted_wrt line_major (case (m, l) of (line_num, line) \<Rightarrow>
                    concat (map (\<lambda>func.
                                   if re_search False (php_call_re func) line
                                   then [finding file_path line_num ''command_injection'' ''high''
                                           (php_message func) line]
                                   else [])
                                dangerous_functions))"
    by (simp add: dangerous_functions_def sorted_wrt_append line_major_def finding_line php_indices)
qed

text \<open>
  The language-specific findings are in the order of the lines and, on one line, in the
  order of the checks.
\<close>

lemma language_findings_line_major:
  "sorted_wrt line_major (check_language_specific file_path content)"
  by (simp add: check_language_specific_def Let_def javascript_line_major python_line_major
        java_line_major php_line_major)

lemma two_evals_places:
  "map (\<lambda>v. (v_line v, check_index v)) (check_javascript_security ''a.js'' two_evals_text)
     = [(1, 0), (1, 1), (2, 0), (2, 1)]"
  unfolding check_javascript_security_def two_evals_lines
  by (simp add: enumerate1_def finding_line javascript_indices eval_line_def js_eval_re_def
        js_proto_re_def re_eval)

text \<open>
  Claim C10, amended. The findings of the catalog come first, ordered by rule (in the
  fixed order of the categories and of the patterns in each) and, among the findings of
  one rule, by ascending line; so a finding on a later line can precede a finding on an
  earlier line when it comes from an earlier rule, as on the two lines that the rules of
  \<open>insecure_crypto\<close> match. The language-specific findings follow all of them, line by
  line, not rule by rule: in ascending line order and, among the findings of one line, in
  the order of the language's checks, as in the JavaScript file of two lines that both
  checks match.
\<close>

theorem findings_order:
  "sorted_wrt rule_major (catalog_findings file_path lines)
   \<and> sorted (map v_line (check_language_specific file_path content))
   \<and> sorted_wrt line_major (check_language_specific file_path content)
   \<and> scan_file (fs(file_path \<mapsto> File content)) file_path
       = catalog_findings file_path (split_lines content) @ check_language_specific file_path content
   \<and> map (\<lambda>v. (rule_index v, v_line v)) (catalog_findings file_path crypto_lines) = [(5, 2), (6, 1)]
   \<and> map (\<lambda>v. (v_line v, check_index v)) (check_javascript_security ''a.js'' two_evals_text)
       = [(1, 0), (1, 1), (2, 0), (2, 1)]"
  by (simp only: catalog_findings_rule_major language_findings_sorted language_findings_line_major
        scan_file_of_file crypto_lines_findings two_evals_places simp_thms)


section \<open>Further properties\<close>

lemma lint_files_total:
  "lint_total_files (lint_files env files r)
     = lint_total_files r + int (length (filter (env_exists env) files))"
  by (induction files arbitrary: r) (simp_all add: Let_def)

lemma lint_files_with_issues:
  "lint_files_with_issues (lint_files env files r)
     = lint_files_with_issues r
       + count_where (\<lambda>p. lint_file env p \<noteq> []) (filter (env_exists env) files)"
  by (induction files arbitrary: r) (simp_all add: Let_def count_where_Nil count_where_Cons)

text \<open>
  In the results of both checkers the number of files with issues is not negative and
  not more than the number of files scanned, which is not more than the number of paths
  given.
\<close>

theorem files_with_issues_bounded:
  "0 \<le> files_with_issues (check_files fs files)
   \<and> files_with_issues (check_files fs files) \<le> total_files (check_files fs files)
   \<and> total_files (check_files fs files) \<le> int (length files)
   \<and> 0 \<le> lint_files_with_issues (lint_check_files env files)
   \<and> lint_files_with_issues (lint_check_files env files) \<le> lint_total_files (lint_check_files env files)
   \<and> lint_total_files (lint_check_files env files) \<le> int (length files)"
proof -
  have "files_with_issues (check_files fs files)
          = count_where (\<lambda>p. scan_file fs p \<noteq> []) (filter (path_exists fs) files)"
    by (simp add: check_files_def Let_def calculate_security_score_def count_severities_frame
          scan_files_with_issues initial_results_def)
  moreover have "lint_files_with_issues (lint_check_files env files)
          = count_where (\<lambda>p. lint_file env p \<noteq> []) (filter (env_exists env) files)"
    by (simp add: lint_check_files_def Let_def calculate_lint_score_def count_lint_frame
          lint_files_with_issues initial_lint_results_def)
  moreover have "lint_total_files (lint_check_files env files)
          = int (length (filter (env_exists env) files))"
    by (simp add: lint_check_files_def Let_def calculate_lint_score_def count_lint_frame
          lint_files_total initial_lint_results_def)
  ultimately show ?thesis
    by (simp add: check_files_total count_where_nonneg count_where_le_length)
qed

text \<open>
  Every finding of the scan of a file names that file and a line of it: its line number
  is at least 1 and at most the number of lines of the content, and its snippet is that
  line without the white space around it.
\<close>

theorem line_numbers_in_file:
  "list_all (\<lambda>v. 1 \<le> v_line v \<and> v_line v \<le> length (split_lines content) \<and> v_file v = file_path
                  \<and> v_code_snippet v = strip (split_lines content ! (v_line v - 1)))
     (scan_file (fs(file_path \<mapsto> File content)) file_path)"
proof -
  have e: "m = Suc i \<and> l = xs ! i" if "(m, l) \<in> set (enumerate1 xs)" and "i = m - 1" for m l i
    and xs :: "string list"
    using that by (auto simp: set_enumerate1)
  have "1 \<le> v_line v \<and> v_line v \<le> length (split_lines content) \<and> v_file v = file_path
          \<and> v_code_snippet v = strip (split_lines content ! (v_line v - 1))"
    if "v \<in> set (catalog_findings file_path (split_lines content))" for v
  proof -
    from that have "v_file v = file_path
        \<and> v_code_snippet v = strip (split_lines content ! (v_line v - 1))"
      by (auto simp: catalog_findings_def category_findings_def rule_findings_def
            set_enumerate1)
    with catalog_findings_sound [OF that] show ?thesis by simp
  qed
  moreover have "1 \<le> v_line v \<and> v_line v \<le> length (split_lines content) \<and> v_file v = file_path
          \<and> v_code_snippet v = strip (split_lines content ! (v_line v - 1))"
    if "v \<in> set (check_language_specific file_path content)" for v
  proof -
    from that have "v_file v = file_path
        \<and> v_code_snippet v = strip (split_lines content ! (v_line v - 1))"
      by (auto simp: check_language_specific_def Let_def check_javascript_security_def
            check_python_security_def check_java_security_def check_php_security_def finding_def
            set_enumerate1 split: if_splits)
    with language_findings_sound [OF that] show ?thesis by simp
  qed
  ultimately show ?thesis
    by (auto simp: scan_file_def list_all_iff)
qed

lemma quoted_line_catalog:
  "map (\<lambda>v. (v_category v, v_line v, v_severity v, v_message v))
     (catalog_findings ''app.js'' [quoted_line])
     = [(''sql_injection'', 1, ''high'', ''Potential SQL injection: String concatenation in SQL query''),
        (''sql_injection'', 1, ''high'', ''Potential SQL injection: Dynamic query construction'')]"
  by (simp add: catalog_findings_def category_findings_def rule_findings_def enumerate1_def
        quoted_line_def catalog_defs re_eval)

lemma quoted_line_lines: "split_lines quoted_line = [quoted_line]"
  by (simp add: split_lines_def quoted_line_def newline_def dquote_def squote_def)

lemma quoted_line_javascript: "check_javascript_security ''app.js'' quoted_line = []"
  unfolding check_javascript_security_def quoted_line_lines
  by (simp add: enumerate1_def quoted_line_def js_eval_re_def js_proto_re_def re_eval)

lemma app_js_suffix: "lower (path_suffix ''app.js'') = ''.js''"
  by (simp add: lower_def path_suffix_def path_name_def py_lower_def lower_code_def upper_case_def
        code_def char_eval)

lemma quoted_scan:
  "scan_file quoted_fs ''app.js'' = catalog_findings ''app.js'' [quoted_line]"
  by (simp add: scan_file_def quoted_fs_def quoted_line_lines check_language_specific_def
        app_js_suffix quoted_line_javascript)

text \<open>
  When the value concatenated into the query of Scenario A is quoted, as in
  \<^verbatim>\<open>query("SELECT * FROM users WHERE id='" + userId + "'")\<close>, both rules of \<open>sql_injection\<close>
  match the line: the scan of a JavaScript file with this one line gives two findings of
  category \<open>sql_injection\<close> and severity high at line 1, 2 errors and the score 70.
\<close>

theorem quoted_concatenation_found:
  "map (\<lambda>v. (v_category v, v_line v, v_severity v, v_message v)) (scan_file quoted_fs ''app.js'')
     = [(''sql_injection'', 1, ''high'', ''Potential SQL injection: String concatenation in SQL query''),
        (''sql_injection'', 1, ''high'', ''Potential SQL injection: Dynamic query construction'')]
   \<and> errors (check_files quoted_fs [''app.js'']) = 2
   \<and> warnings (check_files quoted_fs [''app.js'']) = 0
   \<and> security_score (check_files quoted_fs [''app.js'']) = 70"
proof -
  have a: "map (\<lambda>v. (v_category v, v_line v, v_severity v, v_message v)) (scan_file quoted_fs ''app.js'')
     = [(''sql_injection'', 1, ''high'', ''Potential SQL injection: String concatenation in SQL query''),
        (''sql_injection'', 1, ''high'', ''Potential SQL injection: Dynamic query construction'')]"
    by (simp only: quoted_scan quoted_line_catalog)
  then have "map (\<lambda>t. fst (snd (snd t)))
       (map (\<lambda>v. (v_category v, v_line v, v_severity v, v_message v)) (scan_file quoted_fs ''app.js''))
     = [''high'', ''high'']"
    by simp
  then have "map v_severity (scan_file quoted_fs ''app.js'') = [''high'', ''high'']"
    by (simp add: comp_def)
  then obtain v w where vw: "scan_file quoted_fs ''app.js'' = [v, w]"
    and h: "v_severity v = ''high''" "v_severity w = ''high''"
    by (auto simp: map_eq_Cons_conv)
  have p: "path_exists quoted_fs ''app.js''"
    by (simp add: path_exists_def quoted_fs_def)
  have "vulnerabilities (check_files quoted_fs [''app.js'']) = [v, w]"
    by (simp add: check_files_vulnerabilities p vw)
  then have "errors (check_files quoted_fs [''app.js'']) = 2
      \<and> warnings (check_files quoted_fs [''app.js'']) = 0
      \<and> security_score (check_files quoted_fs [''app.js'']) = 70"
    by (simp add: check_files_errors check_files_warnings check_files_score score_of_findings_eq
          count_where_Nil count_where_Cons is_high_def h)
  with a show ?thesis by simp
qed

lemma empty_line_no_rule: "no_rule_matches []"
  by (simp add: no_rule_matches_def catalog_defs re_eval)

lemma empty_py_suffix: "lower (path_suffix ''empty.py'') = ''.py''"
  by (simp add: lower_def path_suffix_def path_name_def py_lower_def lower_code_def upper_case_def
        code_def char_eval)

lemma empty_file_scan: "scan_file empty_file ''empty.py'' = []"
proof -
  have "catalog_findings ''empty.py'' [[]] = []"
    by (rule catalog_findings_none) (auto simp: empty_line_no_rule)
  moreover have "check_python_security ''empty.py'' [] = []"
    by (simp add: check_python_security_def split_lines_def enumerate1_def py_import_re_def re_eval)
  ultimately show ?thesis
    by (simp add: scan_file_def empty_file_def split_lines_def check_language_specific_def
          empty_py_suffix)
qed

text \<open>
  A file of length zero is scanned and counted: the results of a run on it alone have
  \<open>total_files\<close> 1, no finding, the score 100, and the exit status is 0.
\<close>

theorem empty_file_counted:
  "check_files empty_file [''empty.py'']
     = \<lparr>total_files = 1, files_with_issues = 0, errors = 0, warnings = 0, vulnerabilities = [],
        security_score = 100\<rparr>
   \<and> exit_status (security_main empty_file [''security-checker.py'', ''empty.py'']) = 0"
proof -
  have p: "path_exists empty_file ''empty.py''"
    by (simp add: path_exists_def empty_file_def)
  have c: "check_files empty_file [''empty.py'']
     = \<lparr>total_files = 1, files_with_issues = 0, errors = 0, warnings = 0, vulnerabilities = [],
        security_score = 100\<rparr>"
    by (simp add: check_files_def Let_def p empty_file_scan initial_results_def
          calculate_security_score_def)
  have "files_of_argv [''security-checker.py'', ''empty.py''] = [''empty.py'']"
    by (simp add: files_of_argv_def split_ws_def strip_def is_space_def space_code_def code_def)
  then have "exit_status (security_main empty_file [''security-checker.py'', ''empty.py'']) = 0"
    by (simp add: security_main_def Let_def c)
  with c show ?thesis by simp
qed

end
